theory Spec2Isabelle
  imports Complex_Main "HOL-Library.Word" "HOL-Library.Sublist"
begin

section \<open>Tank level monitor: constants and arithmetic\<close>

text \<open>
  The development embeds \<^verbatim>\<open>src/tank_monitor.py\<close>. Python floats are modelled as
  exact rationals (type \<open>rat\<close>): the binary rounding error of IEEE arithmetic is not
  part of the model, the decimal rounding of \<^verbatim>\<open>round(x, 2)\<close> is. Points in time
  and durations are integers counting microseconds (the resolution of
  \<^verbatim>\<open>datetime\<close>); a raw holding register is a 16-bit word.
\<close>

type_synonym time = int

text \<open>
  The poll interval is a Python float of seconds, and the settings window stores
  whatever \<^verbatim>\<open>float()\<close> reads: a finite value (counted in microseconds here), an
  infinity or NaN. A comparison of floats is false whenever an operand is NaN.
\<close>

datatype seconds = Finite time | PlusInf | MinusInf | NaN

fun float_less :: "seconds \<Rightarrow> seconds \<Rightarrow> bool" where
  "float_less NaN y = False"
| "float_less x NaN = False"
| "float_less (Finite a) (Finite b) = (a < b)"
| "float_less (Finite a) PlusInf = True"
| "float_less (Finite a) MinusInf = False"
| "float_less MinusInf MinusInf = False"
| "float_less MinusInf y = True"
| "float_less PlusInf y = False"

text \<open>
  \<^verbatim>\<open>time.sleep\<close> converts its argument to a signed 64-bit count of nanoseconds;
  \<open>SLEEP_MAX\<close> is the largest count that fits (\<open>2\<^sup>6\<^sup>3\<close> ns), in whole microseconds.
\<close>

definition SLEEP_MAX :: time where
  "SLEEP_MAX = 9223372036854775"

definition MIN_POLL_INTERVAL :: time where
  "MIN_POLL_INTERVAL = 100000"

definition DEFAULT_POLL_INTERVAL :: time where
  "DEFAULT_POLL_INTERVAL = 60000000"

datatype exn =
    ConnectionException | ModbusException | SqliteError | IndexError | KeyError
  | AttributeError | ValueError | OverflowError | RuntimeError | TclError

record capacity =
  gallons :: rat
  height :: rat

definition CAPACITIES :: "(string \<times> capacity) list" where
  "CAPACITIES =
    [(''Big Tank'', \<lparr>gallons = 582000, height = 526 / 10\<rparr>),
     (''Tank 1 - Bio'', \<lparr>gallons = 20000, height = 25\<rparr>),
     (''Tank 2 - Fleet'', \<lparr>gallons = 1747868 / 100, height = 31\<rparr>),
     (''Tank 3 - Fleet'', \<lparr>gallons = 1747868 / 100, height = 31\<rparr>),
     (''Tank 4 - Bio'', \<lparr>gallons = 20000, height = 25\<rparr>),
     (''Tank 5 - Bio'', \<lparr>gallons = 20000, height = 25\<rparr>)]"

text \<open>\<^verbatim>\<open>CAPACITIES[k]['gallons']\<close>: a missing key raises KeyError.\<close>

definition capacity_gallons :: "string \<Rightarrow> exn + rat" where
  "capacity_gallons k =
     (case map_of CAPACITIES k of None \<Rightarrow> Inl KeyError | Some c \<Rightarrow> Inr (gallons c))"

text \<open>
  Python's \<^verbatim>\<open>round(x, ndigits)\<close>: the nearest multiple of \<open>10\<^sup>-\<^sup>n\<close>, a tie going to
  the even neighbour.
\<close>

definition round_half_even :: "rat \<Rightarrow> int" where
  "round_half_even y =
     (let f = \<lfloor>y\<rfloor>; d = y - of_int f
      in if d < 1 / 2 then f
         else if 1 / 2 < d then f + 1
         else if even f then f else f + 1)"

definition py_round :: "rat \<Rightarrow> nat \<Rightarrow> rat" where
  "py_round x ndigits = of_int (round_half_even (x * 10 ^ ndigits)) / 10 ^ ndigits"

text \<open>
  Lines 668-670: \<^verbatim>\<open>(float(register) / 65535) * capacity\<close>, the level before it is
  rounded; lines 671-673 store \<^verbatim>\<open>round(level, 2)\<close>.
\<close>

definition raw_level :: "16 word \<Rightarrow> rat \<Rightarrow> rat" where
  "raw_level r c = (of_nat (unat r) / 65535) * c"

definition transform :: "16 word \<Rightarrow> rat \<Rightarrow> rat" where
  "transform r c = py_round (raw_level r c) 2"

section \<open>The application object and its collaborators\<close>

text \<open>
  One entry of \<^verbatim>\<open>self.tank_levels\<close> (a dict with the keys id, level, capacity and
  height), the Modbus client (its host, and the unit id the polling code writes, unset
  until the first fetch), and a row of the table \<^verbatim>\<open>tank_readings\<close>: the timestamp (to
  the second) and the three gallons columns.
\<close>

record tank =
  tank_id :: string
  level :: rat
  tank_capacity :: rat
  tank_height :: rat

record modbus_client =
  host :: string
  client_unit_id :: "int option"

type_synonym row = "int \<times> rat \<times> rat \<times> rat"

text \<open>
  Calls that leave the object are recorded in a trace: records of the log at level
  WARNING or ERROR (INFO records are left out), the calls into Tk made by cleanup, and
  \<^verbatim>\<open>client.close()\<close>.
\<close>

datatype log_level = WARNING | ERROR

datatype event =
    Log log_level string
  | AskString
  | ShowError
  | AfterCancel
  | ClientClose
  | RootDestroy

text \<open>
  The fields of \<^verbatim>\<open>TankLevelGUI\<close> that the polling thread, \<^verbatim>\<open>update_gui\<close> and
  \<^verbatim>\<open>cleanup\<close> read or write, and the parts of the world they act on: the rows of the
  database file (\<open>db\<close>), whether the Tk root window exists (\<open>root_alive\<close>), the times
  at which an \<^verbatim>\<open>update_gui\<close> callback was handed to Tk by \<^verbatim>\<open>root.after\<close>
  (\<open>gui_scheduled\<close>, oldest first), the clock and the trace.
\<close>

record app =
  running :: bool
  last_update :: "time option"
  stale_threshold :: time
  time_date_after_id :: "nat option"
  cleaned_up :: bool
  adam_ip :: string
  poll_interval :: seconds
  unit_id :: int
  client :: "modbus_client option"
  tank_levels :: "tank list"
  db :: "row list"
  root_alive :: bool
  gui_scheduled :: "time list"
  clock :: time
  trace :: "event list"

definition log_event :: "log_level \<Rightarrow> string \<Rightarrow> app \<Rightarrow> app" where
  "log_event l m s = s\<lparr>trace := trace s @ [Log l m]\<rparr>"

definition emit :: "event \<Rightarrow> app \<Rightarrow> app" where
  "emit e s = s\<lparr>trace := trace s @ [e]\<rparr>"

definition advance :: "nat \<Rightarrow> app \<Rightarrow> app" where
  "advance d s = s\<lparr>clock := clock s + int d\<rparr>"

text \<open>
  \<^verbatim>\<open>time.sleep(d)\<close>: NaN raises ValueError; a value outside the range of the
  nanosecond count, an infinity included, raises OverflowError; a negative value
  raises ValueError; any other value returns after at least \<open>d\<close>, and \<open>over\<close> is
  the time slept beyond \<open>d\<close>.
\<close>

definition sleep :: "seconds \<Rightarrow> nat \<Rightarrow> app \<Rightarrow> (exn \<times> app) + app" where
  "sleep d over s =
     (case d of
        NaN \<Rightarrow> Inl (ValueError, s)
      | PlusInf \<Rightarrow> Inl (OverflowError, s)
      | MinusInf \<Rightarrow> Inl (OverflowError, s)
      | Finite us \<Rightarrow>
          (if us < - SLEEP_MAX \<or> SLEEP_MAX < us then Inl (OverflowError, s)
           else if us < 0 then Inl (ValueError, s)
           else Inr (s\<lparr>clock := clock s + us + int over\<rparr>)))"

section \<open>Startup: \<^verbatim>\<open>load_config\<close> and \<^verbatim>\<open>TankLevelGUI.__init__\<close>\<close>

record config =
  cfg_adam_ip :: string
  cfg_poll_interval :: time
  cfg_unit_id :: int

definition default_config :: config where
  "default_config =
     \<lparr>cfg_adam_ip = ''192.168.1.235'', cfg_poll_interval = DEFAULT_POLL_INTERVAL,
      cfg_unit_id = 1\<rparr>"

text \<open>
  \<^verbatim>\<open>load_config\<close>: \<open>None\<close> is a file that is absent or cannot be read (the
  defaults are returned); a stored poll interval is replaced by the default.
\<close>

definition load_config :: "config option \<Rightarrow> config" where
  "load_config stored =
     (case stored of
        None \<Rightarrow> default_config
      | Some c \<Rightarrow>
          (if cfg_poll_interval c \<noteq> DEFAULT_POLL_INTERVAL
           then c\<lparr>cfg_poll_interval := DEFAULT_POLL_INTERVAL\<rparr> else c))"

text \<open>
  Lines 170-179 and \<^verbatim>\<open>setup_database\<close>: an existing database file is deleted
  (\<open>remove_ok\<close> is whether \<^verbatim>\<open>os.remove\<close> succeeds; its failure is logged), then the
  table is created if it does not exist. \<open>None\<close> is an absent file.
\<close>

definition startup_database :: "bool \<Rightarrow> row list option \<Rightarrow> row list" where
  "startup_database remove_ok existing =
     (case existing of
        None \<Rightarrow> []
      | Some rows \<Rightarrow> if remove_ok then [] else rows)"

text \<open>The six entries of \<^verbatim>\<open>self.tank_levels\<close>, in the order of \<^verbatim>\<open>CAPACITIES\<close>, at level 0.\<close>

definition initial_tank_levels :: "tank list" where
  "initial_tank_levels =
     map (\<lambda>(k, c). \<lparr>tank_id = k, level = 0, tank_capacity = gallons c, tank_height = height c\<rparr>)
       CAPACITIES"

record init_env =
  stored_config :: "config option"
  client_ok :: bool
  existing_db :: "row list option"
  remove_ok :: bool
  setup_database_ok :: bool
  start_clock :: time

text \<open>
  \<^verbatim>\<open>__init__\<close>, without the widgets. A client that cannot be constructed and a
  database file that cannot be deleted are logged; \<^verbatim>\<open>setup_database\<close> re-raises a
  database error, which ends the constructor.
\<close>

definition init :: "init_env \<Rightarrow> exn + app" where
  "init env =
     (let cfg = load_config (stored_config env)
      in if \<not> setup_database_ok env then Inl SqliteError
         else Inr
           \<lparr>running = True,
            last_update = None,
            stale_threshold = 10000000,
            time_date_after_id = Some 0,
            cleaned_up = False,
            adam_ip = cfg_adam_ip cfg,
            poll_interval = Finite (max (cfg_poll_interval cfg) MIN_POLL_INTERVAL),
            unit_id = cfg_unit_id cfg,
            client =
              (if client_ok env then Some \<lparr>host = cfg_adam_ip cfg, client_unit_id = None\<rparr>
               else None),
            tank_levels = initial_tank_levels,
            db = startup_database (remove_ok env) (existing_db env),
            root_alive = True,
            gui_scheduled = [],
            clock = start_clock env,
            trace =
              (if client_ok env then [] else [Log ERROR ''Failed to initialize Modbus client: %s'']) @
              (if existing_db env \<noteq> None \<and> \<not> remove_ok env
               then [Log ERROR ''Failed to delete existing database file %s: %s''] else [])\<rparr>)"

section \<open>Settings: \<^verbatim>\<open>SettingsWindow.save\<close>\<close>

text \<open>
  The two entries of the window: the address, and the interval as \<^verbatim>\<open>float()\<close>
  reads it (\<open>None\<close> when it is not a number, a ValueError). The only check is
  \<^verbatim>\<open>new_interval < MIN_POLL_INTERVAL\<close>; both ValueErrors are caught, shown and
  logged. Without a client, \<^verbatim>\<open>self.app.client.host = new_ip\<close> raises
  AttributeError after the first two assignments.
\<close>

definition save :: "string \<Rightarrow> seconds option \<Rightarrow> app \<Rightarrow> (exn \<times> app) + app" where
  "save new_ip parsed s =
     (case parsed of
        None \<Rightarrow> Inr (log_event ERROR ''Invalid input: %s'' (emit ShowError s))
      | Some new_interval \<Rightarrow>
          (if float_less new_interval (Finite MIN_POLL_INTERVAL)
           then Inr (log_event ERROR ''Invalid input: %s'' (emit ShowError s))
           else
             (let s1 = s\<lparr>adam_ip := new_ip, poll_interval := new_interval\<rparr>
              in case client s1 of
                   None \<Rightarrow> Inl (AttributeError, s1)
                 | Some c \<Rightarrow> Inr (s1\<lparr>client := Some (c\<lparr>host := new_ip\<rparr>)\<rparr>))))"

section \<open>Shutdown: \<^verbatim>\<open>cleanup\<close>\<close>

text \<open>
  What the operator and the collaborators answer during one call of \<^verbatim>\<open>cleanup\<close>:
  the result of \<^verbatim>\<open>askstring\<close> (\<open>Answer None\<close> is Cancel), whether
  \<^verbatim>\<open>showerror\<close> raises TclError, and \<^verbatim>\<open>client.is_socket_open()\<close>.
\<close>

datatype ask_result = Answer "string option" | AskRaised

record cleanup_env =
  ask :: ask_result
  showerror_raises :: bool
  socket_open_at_cleanup :: bool

text \<open>
  Lines 761-783, the exit-code prompt: \<open>True\<close> when cleanup proceeds, \<open>False\<close> when
  it returns. \<^verbatim>\<open>winfo_exists\<close> raises TclError on a destroyed root; every TclError
  raised inside the \<^verbatim>\<open>try\<close> lets cleanup proceed without a prompt.
\<close>

definition confirm_exit :: "cleanup_env \<Rightarrow> app \<Rightarrow> bool \<times> app" where
  "confirm_exit env s =
     (if \<not> root_alive s then (True, s)
      else
        (case ask env of
           AskRaised \<Rightarrow> (True, emit AskString s)
         | Answer exit_code \<Rightarrow>
             (let s1 = emit AskString s
              in if exit_code \<noteq> Some ''12345'' then
                   (if exit_code = None then (False, s1)
                    else
                      (let s2 = emit ShowError (log_event WARNING ''Incorrect exit code entered'' s1)
                       in if showerror_raises env then (True, s2) else (False, s2)))
                 else (True, s1))))"

text \<open>Lines 785-807: the teardown once the prompt has been passed.\<close>

definition teardown :: "cleanup_env \<Rightarrow> app \<Rightarrow> app" where
  "teardown env s =
     (let s1 = s\<lparr>cleaned_up := True, running := False\<rparr>;
          s2 = (if time_date_after_id s1 \<noteq> None then
                  (if root_alive s1 then emit AfterCancel s1
                   else log_event WARNING ''Failed to cancel update_time_date after call''
                          (emit AfterCancel s1))
                else s1);
          s3 = (if client s2 \<noteq> None \<and> socket_open_at_cleanup env then emit ClientClose s2 else s2);
          s4 = (if root_alive s3 then (emit RootDestroy s3)\<lparr>root_alive := False\<rparr>
                else log_event WARNING ''Root window already destroyed'' (emit RootDestroy s3))
      in s4)"

definition cleanup :: "cleanup_env \<Rightarrow> app \<Rightarrow> app" where
  "cleanup env s =
     (if cleaned_up s then s
      else
        (case confirm_exit env s of
           (False, s1) \<Rightarrow> s1
         | (True, s1) \<Rightarrow> teardown env s1))"

section \<open>Acquisition: \<^verbatim>\<open>ping_device\<close>, \<^verbatim>\<open>fetch_tank_levels\<close>, \<^verbatim>\<open>modbus_polling\<close>\<close>

text \<open>
  What the collaborators answer during one poll cycle. Every exception is a value of
  \<open>exn\<close>; all of them derive from Python's \<^verbatim>\<open>Exception\<close>.
\<close>

datatype ping_result = PingExit int | PingTimeout | PingRaised exn

datatype connect_result = Connected | Refused | ConnectRaised exn

datatype read_result = Registers "16 word list" | ErrorResponse | ReadRaised exn

datatype db_result = Committed | DbRaised exn

datatype after_result = Scheduled | AfterRaised exn

text \<open>
  \<open>gui_thread\<close> is a call of \<^verbatim>\<open>cleanup\<close> that the GUI thread makes while the
  cycle's fetch is in flight; the durations say how long the ping, the Modbus exchange
  and the database write take and how far each sleep overruns.
\<close>

record cycle_env =
  ping :: ping_result
  socket_open :: bool
  connect :: connect_result
  read :: read_result
  db_write :: db_result
  after :: after_result
  gui_thread :: "cleanup_env option"
  t_ping :: nat
  t_modbus :: nat
  t_db :: nat
  t_oversleep :: nat

text \<open>\<^verbatim>\<open>ping_device\<close>: true on exit status 0; a timeout or any exception is logged.\<close>

definition ping_device :: "cycle_env \<Rightarrow> app \<Rightarrow> bool \<times> app" where
  "ping_device env s =
     (let s1 = advance (t_ping env) s
      in case ping env of
           PingExit rc \<Rightarrow>
             (if rc = 0 then (True, s1) else (False, log_event WARNING ''Ping to %s failed: %s'' s1))
         | PingTimeout \<Rightarrow> (False, log_event ERROR ''Ping to %s timed out'' s1)
         | PingRaised x \<Rightarrow> (False, log_event ERROR ''Ping to %s failed: %s'' s1))"

text \<open>Lines 651-658: \<open>Inr True\<close> when the socket is open afterwards.\<close>

definition ensure_connected :: "cycle_env \<Rightarrow> exn + bool" where
  "ensure_connected env =
     (if \<not> socket_open env then
        (case connect env of
           ConnectRaised x \<Rightarrow> Inl x
         | Refused \<Rightarrow> Inr False
         | Connected \<Rightarrow> Inr True)
      else Inr True)"

text \<open>
  Lines 668-670: the three levels before rounding. \<^verbatim>\<open>tags.registers[i]\<close> raises
  IndexError on a short list.
\<close>

definition compute_levels :: "16 word list \<Rightarrow> exn + (rat \<times> rat \<times> rat)" where
  "compute_levels registers =
     (case registers of
        r0 # r1 # r2 # _ \<Rightarrow>
          (case (capacity_gallons ''Big Tank'', capacity_gallons ''Tank 1 - Bio'',
                 capacity_gallons ''Tank 2 - Fleet'') of
             (Inr c1, Inr c2, Inr c3) \<Rightarrow>
               Inr (raw_level r0 c1, raw_level r1 c2, raw_level r2 c3)
           | _ \<Rightarrow> Inl KeyError)
      | _ \<Rightarrow> Inl IndexError)"

text \<open>
  Lines 671-676: the assignments \<^verbatim>\<open>self.tank_levels[i]['level'] = v\<close> in order; an
  index out of range raises IndexError and leaves the earlier assignments in place.
\<close>

fun store_levels :: "(nat \<times> rat) list \<Rightarrow> tank list \<Rightarrow> exn option \<times> tank list" where
  "store_levels [] tanks = (None, tanks)"
| "store_levels ((i, v) # rest) tanks =
     (if i < length tanks then store_levels rest (tanks[i := (tanks ! i)\<lparr>level := v\<rparr>])
      else (Some IndexError, tanks))"

text \<open>
  Lines 682-696: the insert of the three levels as computed (not rounded). A
  \<^verbatim>\<open>sqlite3.Error\<close> is logged here; any other exception leaves the block.
\<close>

definition log_to_database :: "cycle_env \<Rightarrow> rat \<times> rat \<times> rat \<Rightarrow> app \<Rightarrow> (exn \<times> app) + app" where
  "log_to_database env levels s =
     (let s1 = advance (t_db env) s
      in case db_write env of
           Committed \<Rightarrow> Inr (s1\<lparr>db := db s1 @ [(clock s1 div 1000000, levels)]\<rparr>)
         | DbRaised x \<Rightarrow>
             (if x = SqliteError
              then Inr (log_event ERROR ''Failed to log tank levels to database: %s'' s1)
              else Inl (x, s1)))"

text \<open>The body of the \<^verbatim>\<open>try\<close> of \<^verbatim>\<open>fetch_tank_levels\<close>: \<open>Inl\<close> is a raised exception
  with the state reached, \<open>Inr\<close> a return.\<close>

definition fetch_body :: "cycle_env \<Rightarrow> app \<Rightarrow> (exn \<times> app) + app" where
  "fetch_body env s =
     (case client s of
        None \<Rightarrow> Inl (AttributeError, s)
      | Some c \<Rightarrow>
          (case ensure_connected env of
             Inl x \<Rightarrow> Inl (x, s)
           | Inr False \<Rightarrow> Inr (log_event ERROR ''Failed to connect to %s'' s)
           | Inr True \<Rightarrow>
               (let s1 = advance (t_modbus env) (s\<lparr>client := Some (c\<lparr>client_unit_id := Some (unit_id s)\<rparr>)\<rparr>)
                in case read env of
                     ReadRaised x \<Rightarrow> Inl (x, s1)
                   | ErrorResponse \<Rightarrow> Inr (log_event ERROR ''Modbus read error: %s'' s1)
                   | Registers registers \<Rightarrow>
                       (case compute_levels registers of
                          Inl x \<Rightarrow> Inl (x, s1)
                        | Inr (level1, level2, level3) \<Rightarrow>
                            (case store_levels
                                    [(0, py_round level1 2), (1, py_round level2 2),
                                     (2, py_round level3 2), (3, py_round level3 2),
                                     (4, py_round level2 2), (5, py_round level2 2)]
                                    (tank_levels s1) of
                               (Some x, tanks) \<Rightarrow> Inl (x, s1\<lparr>tank_levels := tanks\<rparr>)
                             | (None, tanks) \<Rightarrow>
                                 log_to_database env (level1, level2, level3)
                                   (s1\<lparr>tank_levels := tanks, last_update := Some (clock s1)\<rparr>))))))"

text \<open>\<^verbatim>\<open>fetch_tank_levels\<close>: both \<^verbatim>\<open>except\<close> clauses log the exception and return.\<close>

definition fetch_tank_levels :: "cycle_env \<Rightarrow> app \<Rightarrow> app" where
  "fetch_tank_levels env s =
     (case fetch_body env s of
        Inl (x, s1) \<Rightarrow>
          (if x = ConnectionException \<or> x = ModbusException
           then log_event ERROR ''Modbus error: %s'' s1
           else log_event ERROR ''Unexpected error in fetch_tank_levels: %s'' s1)
      | Inr s1 \<Rightarrow> s1)"

text \<open>Lines 630-633: \<^verbatim>\<open>root.after(0, self.update_gui)\<close>, which can raise.\<close>

definition schedule_gui :: "cycle_env \<Rightarrow> app \<Rightarrow> (exn \<times> app) + app" where
  "schedule_gui env s =
     (if running s then
        (case after env of
           Scheduled \<Rightarrow> Inr (s\<lparr>gui_scheduled := gui_scheduled s @ [clock s]\<rparr>)
         | AfterRaised x \<Rightarrow> Inl (x, s))
      else Inr s)"

text \<open>
  A cleanup that the GUI thread makes while the fetch runs takes effect before the
  check of \<^verbatim>\<open>self.running\<close> at line 630.
\<close>

definition gui_interleave :: "cycle_env \<Rightarrow> app \<Rightarrow> app" where
  "gui_interleave env s = (case gui_thread env of None \<Rightarrow> s | Some ce \<Rightarrow> cleanup ce s)"

text \<open>
  Lines 610-614: the floor on the time between two polls. \<^verbatim>\<open>last_poll_time\<close> is a
  local variable of \<^verbatim>\<open>modbus_polling\<close>.
\<close>

definition throttle :: "cycle_env \<Rightarrow> time \<Rightarrow> app \<Rightarrow> (exn \<times> app) + app" where
  "throttle env last_poll_time s =
     (let elapsed = clock s - last_poll_time
      in if elapsed < MIN_POLL_INTERVAL
         then sleep (Finite (MIN_POLL_INTERVAL - elapsed)) (t_oversleep env)
                (log_event WARNING ''Polling too fast, slowing down'' s)
         else Inr s)"

text \<open>
  Lines 635-641: the warning about a slow poll and the sleep of the full interval.
  The result carries the new value of \<^verbatim>\<open>last_poll_time\<close>.
\<close>

definition finish_cycle :: "cycle_env \<Rightarrow> time \<Rightarrow> app \<Rightarrow> (exn \<times> app) + (time \<times> app)" where
  "finish_cycle env start_time s =
     (let poll_duration = clock s - start_time;
          s1 = (if float_less (poll_interval s) (Finite poll_duration)
                then log_event WARNING ''Polling took longer than interval'' s
                else s)
      in case sleep (poll_interval s1) (t_oversleep env) s1 of
           Inl r \<Rightarrow> Inl r
         | Inr s2 \<Rightarrow> Inr (clock s1, s2))"

text \<open>
  The body of the \<^verbatim>\<open>try\<close> of one iteration of \<^verbatim>\<open>modbus_polling\<close>. \<open>Inr\<close> carries
  the value of \<^verbatim>\<open>last_poll_time\<close> for the next iteration (unchanged on
  \<^verbatim>\<open>continue\<close>).
\<close>

definition cycle_body :: "cycle_env \<Rightarrow> time \<Rightarrow> app \<Rightarrow> (exn \<times> app) + (time \<times> app)" where
  "cycle_body env last_poll_time s =
     (let start_time = clock s
      in case throttle env last_poll_time s of
           Inl r \<Rightarrow> Inl r
         | Inr s1 \<Rightarrow>
             (case ping_device env s1 of
                (False, s2) \<Rightarrow>
                  (case sleep (poll_interval s2) (t_oversleep env)
                          (log_event WARNING ''Device %s unreachable, skipping fetch'' s2) of
                     Inl r \<Rightarrow> Inl r
                   | Inr s3 \<Rightarrow> Inr (last_poll_time, s3))
              | (True, s2) \<Rightarrow>
                  (case schedule_gui env (gui_interleave env (fetch_tank_levels env s2)) of
                     Inl r \<Rightarrow> Inl r
                   | Inr s3 \<Rightarrow> finish_cycle env start_time s3)))"

text \<open>
  One iteration with its handler: \<^verbatim>\<open>except Exception\<close> logs and sleeps; an exception
  raised by the handler itself leaves the loop and ends the thread.
\<close>

datatype cycle_result = Continue time | Crash exn

definition poll_cycle :: "cycle_env \<Rightarrow> time \<Rightarrow> app \<Rightarrow> cycle_result \<times> app" where
  "poll_cycle env last_poll_time s =
     (case cycle_body env last_poll_time s of
        Inr (lp, s1) \<Rightarrow> (Continue lp, s1)
      | Inl (x, s1) \<Rightarrow>
          (case sleep (poll_interval s1) (t_oversleep env)
                  (log_event ERROR ''Polling loop error: %s'' s1) of
             Inl (y, s2) \<Rightarrow> (Crash y, s2)
           | Inr s2 \<Rightarrow> (Continue last_poll_time, s2)))"

text \<open>
  The loop \<^verbatim>\<open>while self.running\<close> over the cycles the environment describes. The
  result says how the thread stands when they are used up: \<open>Exited\<close> (the condition
  was false), \<open>Polling\<close> (still in the loop) or \<open>Died\<close> (an exception left it), with
  the number of iterations begun.
\<close>

datatype loop_status = Exited | Polling | Died exn

fun poll_loop :: "cycle_env list \<Rightarrow> time \<Rightarrow> nat \<Rightarrow> app \<Rightarrow> loop_status \<times> nat \<times> app" where
  "poll_loop [] last_poll_time n s = (if running s then (Polling, n, s) else (Exited, n, s))"
| "poll_loop (env # envs) last_poll_time n s =
     (if \<not> running s then (Exited, n, s)
      else
        (case poll_cycle env last_poll_time s of
           (Crash x, s1) \<Rightarrow> (Died x, Suc n, s1)
         | (Continue lp, s1) \<Rightarrow> poll_loop envs lp (Suc n) s1))"

definition modbus_polling :: "cycle_env list \<Rightarrow> app \<Rightarrow> loop_status \<times> nat \<times> app" where
  "modbus_polling envs s = poll_loop envs (clock s) 0 s"

section \<open>Presentation: the staleness test of \<^verbatim>\<open>update_gui\<close>\<close>

text \<open>
  Line 714: \<^verbatim>\<open>self.last_update and (datetime.now() - self.last_update) > self.stale_threshold\<close>.
\<close>

definition is_stale :: "time \<Rightarrow> app \<Rightarrow> bool" where
  "is_stale now s =
     (case last_update s of
        None \<Rightarrow> False
      | Some t \<Rightarrow> now - t > stale_threshold s)"

definition fill_colors :: "(string \<times> string) list" where
  "fill_colors =
    [(''Big Tank'', ''#32CD32''),
     (''Tank 1 - Bio'', ''#FFA500''),
     (''Tank 2 - Fleet'', ''#FFFF00''),
     (''Tank 3 - Fleet'', ''#FFFF00''),
     (''Tank 4 - Bio'', ''#FFA500''),
     (''Tank 5 - Bio'', ''#FFA500'')]"

text \<open>
  Lines 714-720: the fill colour \<^verbatim>\<open>update_gui\<close> gives each tank's bar when it runs
  at time \<open>now\<close>: gray when the data is stale, the tank's own colour otherwise.
  \<open>None\<close> is the KeyError of an id without a colour.
\<close>

definition update_gui_fills :: "time \<Rightarrow> app \<Rightarrow> (string \<times> string) list option" where
  "update_gui_fills now s =
     (if is_stale now s then Some (map (\<lambda>t. (tank_id t, ''gray'')) (tank_levels s))
      else those (map (\<lambda>t. map_option (Pair (tank_id t)) (map_of fill_colors (tank_id t)))
                    (tank_levels s)))"

section \<open>Notions used by the properties\<close>

text \<open>
  A fetch fails at the connect step (the connect is refused or raises), at the read
  step (an error response or an exception) or at the transform step (the levels
  cannot be computed from the registers received).
\<close>

definition fetch_fails :: "cycle_env \<Rightarrow> bool" where
  "fetch_fails env =
     (case ensure_connected env of
        Inl x \<Rightarrow> True
      | Inr False \<Rightarrow> True
      | Inr True \<Rightarrow>
          (case read env of
             ReadRaised x \<Rightarrow> True
           | ErrorResponse \<Rightarrow> True
           | Registers registers \<Rightarrow>
               (case compute_levels registers of Inl x \<Rightarrow> True | Inr levels \<Rightarrow> False)))"

text \<open>The poll intervals with which \<^verbatim>\<open>time.sleep\<close> returns.\<close>

definition sleep_accepts :: "seconds \<Rightarrow> bool" where
  "sleep_accepts d =
     (case d of Finite us \<Rightarrow> 0 \<le> us \<and> us \<le> SLEEP_MAX | PlusInf \<Rightarrow> False
      | MinusInf \<Rightarrow> False | NaN \<Rightarrow> False)"

text \<open>
  \<open>frame s s'\<close>: \<open>s'\<close> is \<open>s\<close> but for a later clock and a longer trace.
\<close>

definition frame :: "app \<Rightarrow> app \<Rightarrow> bool" where
  "frame s s' \<longleftrightarrow>
     s'\<lparr>clock := 0, trace := []\<rparr> = s\<lparr>clock := 0, trace := []\<rparr> \<and>
     clock s \<le> clock s' \<and> prefix (trace s) (trace s')"

text \<open>
  \<open>cframe s s'\<close>: as \<open>frame\<close>, but the fields \<^verbatim>\<open>cleanup\<close> writes may differ too.
  \<open>keeps s s'\<close>: what every fetch leaves alone; the log and the database only grow.
\<close>

definition cframe :: "app \<Rightarrow> app \<Rightarrow> bool" where
  "cframe s s' \<longleftrightarrow>
     s'\<lparr>running := False, cleaned_up := False, root_alive := False, clock := 0, trace := []\<rparr> =
     s\<lparr>running := False, cleaned_up := False, root_alive := False, clock := 0, trace := []\<rparr> \<and>
     clock s \<le> clock s' \<and> prefix (trace s) (trace s')"

definition keeps :: "app \<Rightarrow> app \<Rightarrow> bool" where
  "keeps s s' \<longleftrightarrow>
     running s' = running s \<and> cleaned_up s' = cleaned_up s \<and> root_alive s' = root_alive s \<and>
     poll_interval s' = poll_interval s \<and> stale_threshold s' = stale_threshold s \<and>
     gui_scheduled s' = gui_scheduled s \<and> (client s' = None \<longleftrightarrow> client s = None) \<and>
     length (tank_levels s') = length (tank_levels s) \<and>
     clock s \<le> clock s' \<and> prefix (db s) (db s') \<and> prefix (trace s) (trace s')"

text \<open>
  The state after lines 630-633 when \<^verbatim>\<open>root.after\<close> does not raise.
\<close>

definition published :: "cycle_env \<Rightarrow> app \<Rightarrow> app" where
  "published env s =
     (if running s \<and> after env = Scheduled then s\<lparr>gui_scheduled := gui_scheduled s @ [clock s]\<rparr>
      else s)"

text \<open>Whether a list of events holds a record of the log.\<close>

fun is_log :: "event \<Rightarrow> bool" where
  "is_log (Log l m) = True"
| "is_log e = False"

text \<open>\<open>logged s s'\<close>: from \<open>s\<close> to \<open>s'\<close> the trace grew by at least one log record.\<close>

definition logged :: "app \<Rightarrow> app \<Rightarrow> bool" where
  "logged s s' \<longleftrightarrow>
     prefix (trace s) (trace s') \<and> list_ex is_log (drop (length (trace s)) (trace s'))"

text \<open>
  Concrete inputs: a first start with a reachable device; a restart over a database
  file that holds one row; the started application after the settings window has
  stored another poll interval; a cycle that reads the registers 32768, 10000, 5000; a cycle
  whose connect is refused; six cycles that each meet a different error; an operator
  who types a wrong exit code, and one who types the right one.
\<close>

definition first_start :: init_env where
  "first_start =
     \<lparr>stored_config = None, client_ok = True, existing_db = None, remove_ok = True,
      setup_database_ok = True, start_clock = 0\<rparr>"

definition restart :: init_env where
  "restart = first_start\<lparr>existing_db := Some [(1, 291000, 3000, 1300)]\<rparr>"

definition started :: app where
  "started =
     \<lparr>running = True, last_update = None, stale_threshold = 10000000,
      time_date_after_id = Some 0, cleaned_up = False, adam_ip = ''192.168.1.235'',
      poll_interval = Finite 60000000, unit_id = 1,
      client = Some \<lparr>host = ''192.168.1.235'', client_unit_id = None\<rparr>,
      tank_levels = initial_tank_levels, db = [], root_alive = True, gui_scheduled = [],
      clock = 0, trace = []\<rparr>"

definition with_interval :: "seconds \<Rightarrow> app" where
  "with_interval v = started\<lparr>poll_interval := v\<rparr>"

definition good_cycle :: cycle_env where
  "good_cycle =
     \<lparr>ping = PingExit 0, socket_open = False, connect = Connected,
      read = Registers [32768, 10000, 5000], db_write = Committed, after = Scheduled,
      gui_thread = None, t_ping = 20000, t_modbus = 30000, t_db = 5000, t_oversleep = 100\<rparr>"

definition refused_cycle :: cycle_env where
  "refused_cycle = good_cycle\<lparr>connect := Refused\<rparr>"

definition error_cycles :: "cycle_env list" where
  "error_cycles =
     [good_cycle\<lparr>ping := PingTimeout\<rparr>,
      refused_cycle,
      good_cycle\<lparr>read := ErrorResponse\<rparr>,
      good_cycle\<lparr>read := Registers [7]\<rparr>,
      good_cycle\<lparr>db_write := DbRaised SqliteError\<rparr>,
      good_cycle\<lparr>after := AfterRaised RuntimeError\<rparr>]"

definition wrong_code :: cleanup_env where
  "wrong_code = \<lparr>ask = Answer (Some ''0000''), showerror_raises = False, socket_open_at_cleanup = True\<rparr>"

definition right_code :: cleanup_env where
  "right_code = \<lparr>ask = Answer (Some ''12345''), showerror_raises = False, socket_open_at_cleanup = True\<rparr>"

section \<open>Properties\<close>

lemma round_half_even_bounds:
  "\<bar>of_int (round_half_even y) - y\<bar> \<le> 1 / 2"
proof -
  have "of_int \<lfloor>y\<rfloor> \<le> y" and "y < of_int \<lfloor>y\<rfloor> + 1"
    by linarith+
  then show ?thesis
    unfolding round_half_even_def Let_def by (auto simp: abs_le_iff)
qed

lemma round_half_even_of_int [simp]: "round_half_even (of_int k) = k"
  by (simp add: round_half_even_def)

lemma py_round_2_error: "\<bar>py_round x 2 - x\<bar> \<le> 1 / 200"
proof -
  have "\<bar>of_int (round_half_even (x * 100)) - x * 100\<bar> \<le> 1 / 2"
    by (rule round_half_even_bounds)
  then have "\<bar>(of_int (round_half_even (x * 100)) - x * 100) / 100\<bar> \<le> (1 / 2) / 100"
    by (simp only: abs_divide) simp
  then show ?thesis
    by (simp add: py_round_def diff_divide_distrib)
qed

lemma round_half_even_eqI: "\<bar>y - of_int k\<bar> < 1 / 2 \<Longrightarrow> round_half_even y = k"
proof -
  assume a: "\<bar>y - of_int k\<bar> < 1 / 2"
  then have lo: "of_int k - 1 / 2 < y" and hi: "y < of_int k + 1 / 2"
    by linarith+
  then have "of_int (k - 1) \<le> y" "y < of_int (k + 1)"
    by simp_all
  then have "k - 1 \<le> \<lfloor>y\<rfloor>" "\<lfloor>y\<rfloor> < k + 1"
    by (simp_all only: le_floor_iff floor_less_iff)
  then have "\<lfloor>y\<rfloor> = k \<or> \<lfloor>y\<rfloor> = k - 1"
    by auto
  then show ?thesis
  proof
    assume "\<lfloor>y\<rfloor> = k"
    moreover from hi have "y - of_int k < 1 / 2" by linarith
    ultimately show ?thesis
      by (simp add: round_half_even_def Let_def)
  next
    assume f: "\<lfloor>y\<rfloor> = k - 1"
    have "of_int (k - 1) = (of_int k :: rat) - 1" by simp
    with lo have "1 / 2 < y - of_int (k - 1)" by linarith
    with f show ?thesis
      by (simp add: round_half_even_def Let_def)
  qed
qed

lemma py_round_2_eqI: "\<bar>x * 100 - of_int k\<bar> < 1 / 2 \<Longrightarrow> py_round x 2 = of_int k / 100"
  by (simp add: py_round_def round_half_even_eqI)

lemma raw_level_0: "raw_level 0 c = 0"
  by (simp add: raw_level_def)

lemma raw_level_max: "raw_level 65535 c = c"
  by (simp add: raw_level_def)

lemma py_round_0: "py_round 0 n = 0"
  by (simp add: py_round_def round_half_even_def)

lemma transform_example: "transform 10000 20000 = 305180 / 100"
  using py_round_2_eqI [of "raw_level 10000 20000" 305180]
  by (simp add: transform_def raw_level_def)

subsection \<open>Frames\<close>

lemma frame_fields:
  "frame s s' \<Longrightarrow>
     running s' = running s \<and> last_update s' = last_update s \<and>
     stale_threshold s' = stale_threshold s \<and> time_date_after_id s' = time_date_after_id s \<and>
     cleaned_up s' = cleaned_up s \<and> adam_ip s' = adam_ip s \<and>
     poll_interval s' = poll_interval s \<and> unit_id s' = unit_id s \<and> client s' = client s \<and>
     tank_levels s' = tank_levels s \<and> db s' = db s \<and> root_alive s' = root_alive s \<and>
     gui_scheduled s' = gui_scheduled s \<and> clock s \<le> clock s' \<and> prefix (trace s) (trace s')"
  by (cases s, cases s') (simp add: frame_def)

lemma cframe_fields:
  "cframe s s' \<Longrightarrow>
     last_update s' = last_update s \<and>
     stale_threshold s' = stale_threshold s \<and> time_date_after_id s' = time_date_after_id s \<and>
     adam_ip s' = adam_ip s \<and>
     poll_interval s' = poll_interval s \<and> unit_id s' = unit_id s \<and> client s' = client s \<and>
     tank_levels s' = tank_levels s \<and> db s' = db s \<and>
     gui_scheduled s' = gui_scheduled s \<and> clock s \<le> clock s' \<and> prefix (trace s) (trace s')"
  by (cases s, cases s') (simp add: cframe_def)

lemma frame_refl [simp]: "frame s s"
  by (simp add: frame_def)

lemma frame_trans: "frame s s1 \<Longrightarrow> frame s1 s2 \<Longrightarrow> frame s s2"
  by (auto simp: frame_def)

lemma cframe_refl [simp]: "cframe s s"
  by (simp add: cframe_def)

lemma cframe_trans: "cframe s s1 \<Longrightarrow> cframe s1 s2 \<Longrightarrow> cframe s s2"
  by (auto simp: cframe_def)

lemma frame_cframe: "frame s s' \<Longrightarrow> cframe s s'"
  by (cases s, cases s') (simp add: frame_def cframe_def)

lemma frame_log_event [simp]: "frame s (log_event l m s)"
  by (simp add: frame_def log_event_def)

lemma frame_emit [simp]: "frame s (emit e s)"
  by (simp add: frame_def emit_def)

lemma frame_advance [simp]: "frame s (advance d s)"
  by (simp add: frame_def advance_def)

lemma sleep_Inr:
  "sleep v over s = Inr s' \<Longrightarrow>
     frame s s' \<and> (\<exists>d. v = Finite d \<and> 0 \<le> d \<and> d \<le> SLEEP_MAX \<and> clock s + d \<le> clock s')"
  by (cases v) (auto simp: sleep_def frame_def split: if_splits)

lemma sleep_Inl: "sleep v over s = Inl r \<Longrightarrow> snd r = s \<and> \<not> sleep_accepts v"
  by (cases v) (auto simp: sleep_def sleep_accepts_def SLEEP_MAX_def split: if_splits)

lemma sleep_accepted: "sleep_accepts v \<Longrightarrow> \<exists>s'. sleep v over s = Inr s'"
  by (cases v) (auto simp: sleep_def sleep_accepts_def SLEEP_MAX_def)

lemma sleep_accepts_Finite: "sleep_accepts (Finite d) \<longleftrightarrow> 0 \<le> d \<and> d \<le> SLEEP_MAX"
  by (simp add: sleep_accepts_def)

lemma ping_device_frame:
  "ping_device env s = (b, s') \<Longrightarrow> frame s s' \<and> (b \<longleftrightarrow> ping env = PingExit 0)"
  by (auto simp: ping_device_def Let_def frame_def advance_def log_event_def
      split: ping_result.splits if_splits)

lemma throttle_Inr: "throttle env lp s = Inr s' \<Longrightarrow> frame s s'"
proof -
  assume t: "throttle env lp s = Inr s'"
  show ?thesis
  proof (cases "clock s - lp < MIN_POLL_INTERVAL")
    case True
    with t have "sleep (Finite (MIN_POLL_INTERVAL - (clock s - lp))) (t_oversleep env)
           (log_event WARNING ''Polling too fast, slowing down'' s) = Inr s'"
      by (simp add: throttle_def Let_def)
    from sleep_Inr [OF this] show ?thesis
      by (blast intro: frame_trans frame_log_event)
  next
    case False
    with t show ?thesis by (simp add: throttle_def Let_def)
  qed
qed

lemma throttle_Inl: "throttle env lp s = Inl r \<Longrightarrow> frame s (snd r)"
proof -
  assume t: "throttle env lp s = Inl r"
  show ?thesis
  proof (cases "clock s - lp < MIN_POLL_INTERVAL")
    case True
    with t have "sleep (Finite (MIN_POLL_INTERVAL - (clock s - lp))) (t_oversleep env)
           (log_event WARNING ''Polling too fast, slowing down'' s) = Inl r"
      by (simp add: throttle_def Let_def)
    from sleep_Inl [OF this] show ?thesis by simp
  next
    case False
    with t show ?thesis by (simp add: throttle_def Let_def)
  qed
qed

text \<open>
  The first sleep of a cycle returns when \<^verbatim>\<open>last_poll_time\<close> is not in the future,
  which the loop keeps true.
\<close>

lemma throttle_returns: "lp \<le> clock s \<Longrightarrow> \<exists>s'. throttle env lp s = Inr s'"
proof (cases "clock s - lp < MIN_POLL_INTERVAL")
  case True
  assume "lp \<le> clock s"
  with True have "sleep_accepts (Finite (MIN_POLL_INTERVAL - (clock s - lp)))"
    by (simp add: sleep_accepts_def MIN_POLL_INTERVAL_def SLEEP_MAX_def)
  from sleep_accepted [OF this] True show ?thesis
    by (simp add: throttle_def Let_def)
next
  case False
  then show ?thesis by (simp add: throttle_def Let_def)
qed

lemma confirm_exit_frame: "confirm_exit env s = (b, s') \<Longrightarrow> frame s s'"
  by (auto simp: confirm_exit_def Let_def frame_def emit_def log_event_def
      split: if_splits ask_result.splits)

lemma teardown_cframe: "cframe s (teardown env s)"
  by (cases s) (simp add: teardown_def Let_def cframe_def emit_def log_event_def)

lemma cleanup_cframe: "cframe s (cleanup env s)"
proof (cases "cleaned_up s")
  case True
  then show ?thesis by (simp add: cleanup_def)
next
  case False
  obtain b s1 where c: "confirm_exit env s = (b, s1)" by (cases "confirm_exit env s")
  then have "cframe s s1" by (blast intro: frame_cframe dest: confirm_exit_frame)
  moreover have "cframe s1 (teardown env s1)" by (rule teardown_cframe)
  ultimately show ?thesis using False c
    by (cases b) (auto simp: cleanup_def intro: cframe_trans)
qed

lemma gui_interleave_cframe: "cframe s (gui_interleave env s)"
  by (simp add: gui_interleave_def cleanup_cframe split: option.splits)

lemma gui_interleave_None: "gui_thread env = None \<Longrightarrow> gui_interleave env s = s"
  by (simp add: gui_interleave_def)

subsection \<open>One fetch\<close>

lemma compute_levels_three:
  "compute_levels (r0 # r1 # r2 # rest) =
     Inr (raw_level r0 582000, raw_level r1 20000, raw_level r2 (1747868 / 100))"
  by (simp add: compute_levels_def capacity_gallons_def CAPACITIES_def)

lemma compute_levels_short: "length registers < 3 \<Longrightarrow> compute_levels registers = Inl IndexError"
  by (auto simp: compute_levels_def split: list.splits)

lemma length_six: "length xs = 6 \<Longrightarrow> \<exists>a b c d e f. xs = [a, b, c, d, e, f]"
  by (cases xs rule: list.exhaust; simp add: length_Suc_conv; auto simp: eval_nat_numeral length_Suc_conv)

lemma store_levels_six:
  "length tanks = 6 \<Longrightarrow>
     \<exists>tanks'. store_levels [(0, v0), (1, v1), (2, v2), (3, v3), (4, v4), (5, v5)] tanks = (None, tanks') \<and>
       map level tanks' = [v0, v1, v2, v3, v4, v5] \<and>
       map tank_id tanks' = map tank_id tanks \<and>
       map tank_capacity tanks' = map tank_capacity tanks \<and>
       map tank_height tanks' = map tank_height tanks"
proof -
  assume "length tanks = 6"
  from length_six [OF this] obtain a b c d e f where "tanks = [a, b, c, d, e, f]" by blast
  then show ?thesis by simp
qed

lemma log_to_database_Committed:
  "db_write env = Committed \<Longrightarrow>
     log_to_database env levels s =
       Inr (s\<lparr>clock := clock s + int (t_db env),
              db := db s @ [((clock s + int (t_db env)) div 1000000, levels)]\<rparr>)"
  by (simp add: log_to_database_def Let_def advance_def)

lemma log_to_database_frame:
  "db_write env \<noteq> Committed \<Longrightarrow>
     (\<exists>s'. log_to_database env levels s = Inr s' \<and> frame s s') \<or>
     (\<exists>x s'. log_to_database env levels s = Inl (x, s') \<and> frame s s')"
  by (cases "db_write env")
    (auto simp: log_to_database_def Let_def frame_def advance_def log_event_def)

lemma keeps_refl [simp]: "keeps s s"
  by (simp add: keeps_def)

lemma keeps_trans: "keeps s s1 \<Longrightarrow> keeps s1 s2 \<Longrightarrow> keeps s s2"
  by (auto simp: keeps_def)

lemma frame_keeps: "frame s s' \<Longrightarrow> keeps s s'"
  by (drule frame_fields) (simp add: keeps_def)

lemma keeps_log_event [simp]: "keeps s (log_event l m s)"
  by (simp add: frame_keeps)

lemma keeps_log_event' [simp]: "keeps s s1 \<Longrightarrow> keeps s (log_event l m s1)"
  by (blast intro: keeps_trans keeps_log_event)

lemma store_levels_length: "store_levels as tanks = (r, tanks') \<Longrightarrow> length tanks' = length tanks"
  by (induction as tanks rule: store_levels.induct) (auto split: if_splits)

lemma log_to_database_keeps:
  "log_to_database env levels s = r \<Longrightarrow>
     (case r of Inl (x, s') \<Rightarrow> keeps s s' | Inr s' \<Rightarrow> keeps s s')"
  by (cases "db_write env")
    (auto simp: log_to_database_def Let_def keeps_def advance_def log_event_def)

lemma fetch_body_keeps:
  "fetch_body env s = r \<Longrightarrow> (case r of Inl (x, s') \<Rightarrow> keeps s s' | Inr s' \<Rightarrow> keeps s s')"
proof (cases "client s")
  case None
  assume "fetch_body env s = r"
  with None show ?thesis by (auto simp: fetch_body_def)
next
  case (Some c)
  assume r: "fetch_body env s = r"
  define s1 where "s1 = advance (t_modbus env) (s\<lparr>client := Some (c\<lparr>client_unit_id := Some (unit_id s)\<rparr>)\<rparr>)"
  have k1: "keeps s s1"
    using Some by (simp add: s1_def keeps_def advance_def)
  show ?thesis
  proof (cases "ensure_connected env")
    case (Inl x)
    with Some r show ?thesis by (auto simp: fetch_body_def)
  next
    case (Inr b)
    show ?thesis
    proof (cases b)
      case False
      with Inr Some r show ?thesis
        by (auto simp: fetch_body_def intro: frame_keeps)
    next
      case True
      show ?thesis
      proof (cases "read env")
        case (ReadRaised x)
        with True Inr Some r k1 show ?thesis
          by (auto simp: fetch_body_def s1_def Let_def)
      next
        case ErrorResponse
        with True Inr Some r have "r = Inr (log_event ERROR ''Modbus read error: %s'' s1)"
          by (auto simp: fetch_body_def s1_def Let_def)
        with k1 show ?thesis
          by (auto intro: keeps_trans frame_keeps)
      next
        case (Registers registers)
        show ?thesis
        proof (cases "compute_levels registers")
          case (Inl x)
          with Registers True Inr Some r k1 show ?thesis
            by (auto simp: fetch_body_def s1_def Let_def)
        next
          case (Inr levels)
          obtain level1 level2 level3 where l: "levels = (level1, level2, level3)"
            by (cases levels) auto
          obtain e tanks' where st: "store_levels
                                    [(0, py_round level1 2), (1, py_round level2 2),
                                     (2, py_round level3 2), (3, py_round level3 2),
                                     (4, py_round level2 2), (5, py_round level2 2)]
                                    (tank_levels s1) = (e, tanks')"
            by (cases "store_levels
                                    [(0, py_round level1 2), (1, py_round level2 2),
                                     (2, py_round level3 2), (3, py_round level3 2),
                                     (4, py_round level2 2), (5, py_round level2 2)]
                                    (tank_levels s1)") auto
          from store_levels_length [OF st] have len: "length tanks' = length (tank_levels s1)" .
          show ?thesis
          proof (cases e)
            case (Some x)
            with st l Inr Registers True \<open>ensure_connected env = Inr b\<close> \<open>client s = Some c\<close> r
            have "r = Inl (x, s1\<lparr>tank_levels := tanks'\<rparr>)"
              by (auto simp: fetch_body_def s1_def Let_def)
            moreover have "keeps s (s1\<lparr>tank_levels := tanks'\<rparr>)"
              using k1 len by (simp add: keeps_def)
            ultimately show ?thesis by simp
          next
            case None
            define s2 where "s2 = s1\<lparr>tank_levels := tanks', last_update := Some (clock s1)\<rparr>"
            have k2: "keeps s s2"
              using k1 len by (simp add: keeps_def s2_def)
            from None st l Inr Registers True \<open>ensure_connected env = Inr b\<close> \<open>client s = Some c\<close> r
            have "log_to_database env (level1, level2, level3) s2 = r"
              by (auto simp: fetch_body_def s1_def s2_def Let_def)
            from log_to_database_keeps [OF this] k2 show ?thesis
              by (auto split: sum.splits intro: keeps_trans)
          qed
        qed
      qed
    qed
  qed
qed

lemma fetch_tank_levels_keeps: "keeps s (fetch_tank_levels env s)"
  using fetch_body_keeps [where env = env and s = s, OF refl]
  by (auto simp: fetch_tank_levels_def split: sum.splits)

lemma fetch_fails_unchanged:
  assumes "fetch_fails env"
  shows "tank_levels (fetch_tank_levels env s) = tank_levels s \<and>
         last_update (fetch_tank_levels env s) = last_update s \<and>
         db (fetch_tank_levels env s) = db s"
proof (cases "client s")
  case None
  then show ?thesis
    by (simp add: fetch_tank_levels_def fetch_body_def log_event_def)
next
  case (Some c)
  with assms show ?thesis
    by (auto simp: fetch_fails_def fetch_tank_levels_def fetch_body_def log_event_def
        advance_def Let_def
        split: sum.splits bool.splits read_result.splits)
qed

lemma fetch_succeeds:
  assumes c: "client s \<noteq> None"
    and e: "ensure_connected env = Inr True"
    and r: "read env = Registers (r0 # r1 # r2 # rest)"
    and n: "length (tank_levels s) = 6"
  shows "map level (tank_levels (fetch_tank_levels env s)) =
           [transform r0 582000, transform r1 20000, transform r2 (1747868 / 100),
            transform r2 (1747868 / 100), transform r1 20000, transform r1 20000] \<and>
         map tank_id (tank_levels (fetch_tank_levels env s)) = map tank_id (tank_levels s) \<and>
         last_update (fetch_tank_levels env s) = Some (clock s + int (t_modbus env)) \<and>
         db (fetch_tank_levels env s) =
           (if db_write env = Committed
            then db s @ [((clock s + int (t_modbus env) + int (t_db env)) div 1000000,
                          raw_level r0 582000, raw_level r1 20000, raw_level r2 (1747868 / 100))]
            else db s) \<and>
         clock (fetch_tank_levels env s) = clock s + int (t_modbus env) + int (t_db env)"
proof -
  from c obtain cl where cl: "client s = Some cl" by auto
  define s1 where "s1 = advance (t_modbus env) (s\<lparr>client := Some (cl\<lparr>client_unit_id := Some (unit_id s)\<rparr>)\<rparr>)"
  have s1: "tank_levels s1 = tank_levels s" "clock s1 = clock s + int (t_modbus env)" "db s1 = db s"
    by (simp_all add: s1_def advance_def)
  define l1 where "l1 = raw_level r0 582000"
  define l2 where "l2 = raw_level r1 20000"
  define l3 where "l3 = raw_level r2 (1747868 / 100)"
  from n s1 have "length (tank_levels s1) = 6" by simp
  from store_levels_six [OF this, of "py_round l1 2" "py_round l2 2" "py_round l3 2"
      "py_round l3 2" "py_round l2 2" "py_round l2 2"]
  obtain tanks' where st: "store_levels
       [(0, py_round l1 2), (1, py_round l2 2), (2, py_round l3 2), (3, py_round l3 2),
        (4, py_round l2 2), (5, py_round l2 2)] (tank_levels s1) = (None, tanks')"
    and lv: "map level tanks' = [py_round l1 2, py_round l2 2, py_round l3 2, py_round l3 2,
        py_round l2 2, py_round l2 2]"
    and ids: "map tank_id tanks' = map tank_id (tank_levels s1)"
    by (elim exE conjE)
  define s2 where "s2 = s1\<lparr>tank_levels := tanks', last_update := Some (clock s1)\<rparr>"
  have cl3: "compute_levels (r0 # r1 # r2 # rest) = Inr (l1, l2, l3)"
    by (simp only: compute_levels_three l1_def l2_def l3_def)
  have body: "fetch_body env s = log_to_database env (l1, l2, l3) s2"
    by (simp only: fetch_body_def cl e r cl3 st s1_def [symmetric] s2_def Let_def
        option.case sum.case bool.case read_result.case prod.case)
  have s2: "tank_levels s2 = tanks'" "last_update s2 = Some (clock s + int (t_modbus env))"
    "db s2 = db s" "clock s2 = clock s + int (t_modbus env)"
    using s1 by (simp_all add: s2_def)
  have "tank_levels (fetch_tank_levels env s) = tanks' \<and>
        last_update (fetch_tank_levels env s) = Some (clock s + int (t_modbus env)) \<and>
        db (fetch_tank_levels env s) =
           (if db_write env = Committed
            then db s @ [((clock s + int (t_modbus env) + int (t_db env)) div 1000000, l1, l2, l3)]
            else db s) \<and>
        clock (fetch_tank_levels env s) = clock s + int (t_modbus env) + int (t_db env)"
    using s2
    by (cases "db_write env")
      (auto simp: fetch_tank_levels_def body log_to_database_def Let_def advance_def
        log_event_def)
  with lv ids s1 show ?thesis
    by (simp add: transform_def l1_def l2_def l3_def)
qed

lemma logged_log_event [simp]: "logged s (log_event l m s)"
  by (simp add: logged_def log_event_def)

lemma logged_after: "prefix (trace s) (trace s1) \<Longrightarrow> logged s1 s2 \<Longrightarrow> logged s s2"
  by (auto simp: logged_def prefix_def list_ex_iff)

lemma logged_before: "logged s s1 \<Longrightarrow> prefix (trace s1) (trace s2) \<Longrightarrow> logged s s2"
  by (auto simp: logged_def prefix_def list_ex_iff)

lemma frame_prefix: "frame s s' \<Longrightarrow> prefix (trace s) (trace s')"
  by (simp add: frame_def)

lemma keeps_prefix: "keeps s s' \<Longrightarrow> prefix (trace s) (trace s')"
  by (simp add: keeps_def)

lemma cframe_prefix: "cframe s s' \<Longrightarrow> prefix (trace s) (trace s')"
  by (simp add: cframe_def)

lemma ping_device_logged:
  "ping env \<noteq> PingExit 0 \<Longrightarrow> ping_device env s = (b, s') \<Longrightarrow> logged s s'"
  by (auto simp: ping_device_def Let_def logged_def advance_def log_event_def
      split: ping_result.splits if_splits)

lemma log_to_database_logged:
  "db_write env \<noteq> Committed \<Longrightarrow> log_to_database env levels s = Inr s' \<Longrightarrow> logged s s'"
  by (cases "db_write env")
    (auto simp: log_to_database_def Let_def logged_def advance_def log_event_def split: if_splits)

lemma fetch_body_logged:
  assumes "fetch_fails env \<or> db_write env \<noteq> Committed"
    and "fetch_body env s = Inr s'"
  shows "logged s s'"
proof -
  from assms(2) obtain c where c: "client s = Some c"
    by (cases "client s") (auto simp: fetch_body_def)
  define s1 where "s1 = advance (t_modbus env) (s\<lparr>client := Some (c\<lparr>client_unit_id := Some (unit_id s)\<rparr>)\<rparr>)"
  have t1: "trace s1 = trace s" by (simp add: s1_def advance_def)
  show ?thesis
  proof (cases "ensure_connected env")
    case (Inl x)
    with c assms(2) show ?thesis by (simp add: fetch_body_def)
  next
    case (Inr b)
    show ?thesis
    proof (cases b)
      case False
      with Inr c assms(2) show ?thesis by (auto simp: fetch_body_def)
    next
      case True
      show ?thesis
      proof (cases "read env")
        case (ReadRaised x)
        with True Inr c assms(2) show ?thesis by (simp add: fetch_body_def Let_def)
      next
        case ErrorResponse
        with True Inr c assms(2) have "s' = log_event ERROR ''Modbus read error: %s'' s1"
          by (simp add: fetch_body_def Let_def s1_def)
        with t1 show ?thesis by (simp add: logged_def log_event_def)
      next
        case (Registers registers)
        show ?thesis
        proof (cases "compute_levels registers")
          case (Inl x)
          with Registers True Inr c assms(2) show ?thesis by (simp add: fetch_body_def Let_def)
        next
          case cl: (Inr levels)
          with Registers True Inr have "\<not> fetch_fails env"
            by (simp add: fetch_fails_def)
          with assms(1) have d: "db_write env \<noteq> Committed" by simp
          obtain level1 level2 level3 where l: "levels = (level1, level2, level3)"
            by (cases levels) auto
          obtain e tanks' where st: "store_levels
                                    [(0, py_round level1 2), (1, py_round level2 2),
                                     (2, py_round level3 2), (3, py_round level3 2),
                                     (4, py_round level2 2), (5, py_round level2 2)]
                                    (tank_levels s1) = (e, tanks')"
            by (cases "store_levels
                                    [(0, py_round level1 2), (1, py_round level2 2),
                                     (2, py_round level3 2), (3, py_round level3 2),
                                     (4, py_round level2 2), (5, py_round level2 2)]
                                    (tank_levels s1)") auto
          define s2 where "s2 = s1\<lparr>tank_levels := tanks', last_update := Some (clock s1)\<rparr>"
          have t2: "trace s2 = trace s" using t1 by (simp add: s2_def)
          have "fetch_body env s =
                  (case e of Some x \<Rightarrow> Inl (x, s1\<lparr>tank_levels := tanks'\<rparr>)
                   | None \<Rightarrow> log_to_database env (level1, level2, level3) s2)"
            by (simp only: fetch_body_def c Inr True Registers cl l st s1_def [symmetric] s2_def
                Let_def option.case sum.case bool.case read_result.case prod.case)
          with assms(2) have "log_to_database env (level1, level2, level3) s2 = Inr s'"
            by (cases e) auto
          from log_to_database_logged [OF d this] t2 show ?thesis
            by (simp add: logged_def)
        qed
      qed
    qed
  qed
qed

lemma fetch_tank_levels_logged:
  assumes "fetch_fails env \<or> db_write env \<noteq> Committed"
  shows "logged s (fetch_tank_levels env s)"
proof (cases "fetch_body env s")
  case (Inr s')
  with fetch_body_logged [OF assms Inr] show ?thesis
    by (simp add: fetch_tank_levels_def)
next
  case (Inl q)
  obtain x s1 where q: "q = (x, s1)" by (cases q)
  from fetch_body_keeps [OF Inl] q have "prefix (trace s) (trace s1)"
    by (simp add: keeps_def)
  moreover have "logged s1 (fetch_tank_levels env s)"
    using Inl q by (simp add: fetch_tank_levels_def)
  ultimately show ?thesis by (rule logged_after)
qed


subsection \<open>One poll cycle\<close>

lemma schedule_gui_published:
  "schedule_gui env s = Inr (published env s) \<or>
   (\<exists>x. schedule_gui env s = Inl (x, s) \<and> published env s = s)"
  by (cases "after env") (auto simp: schedule_gui_def published_def)

lemma published_fields:
  "tank_levels (published env s) = tank_levels s \<and> last_update (published env s) = last_update s \<and>
   db (published env s) = db s \<and> clock (published env s) = clock s \<and>
   running (published env s) = running s \<and> poll_interval (published env s) = poll_interval s \<and>
   stale_threshold (published env s) = stale_threshold s \<and> trace (published env s) = trace s \<and>
   gui_scheduled (published env s) =
     (if running s \<and> after env = Scheduled then gui_scheduled s @ [clock s] else gui_scheduled s)"
  by (simp add: published_def)

lemma finish_cycle_frame:
  "finish_cycle env st s = r \<Longrightarrow>
     (case r of
        Inl (x, s') \<Rightarrow> frame s s' \<and> \<not> sleep_accepts (poll_interval s)
      | Inr (lp, s') \<Rightarrow>
          frame s s' \<and> lp = clock s \<and>
          (\<exists>d. poll_interval s = Finite d \<and> clock s + d \<le> clock s'))"
proof -
  assume r: "finish_cycle env st s = r"
  define s1 where "s1 = (if float_less (poll_interval s) (Finite (clock s - st))
                then log_event WARNING ''Polling took longer than interval'' s
                else s)"
  have f1: "frame s s1"
    by (simp add: s1_def)
  have pi: "poll_interval s1 = poll_interval s" and ck: "clock s1 = clock s"
    by (simp_all add: s1_def log_event_def)
  show ?thesis
  proof (cases "sleep (poll_interval s1) (t_oversleep env) s1")
    case (Inr s2)
    with r have "r = Inr (clock s1, s2)"
      by (simp add: finish_cycle_def Let_def s1_def)
    with sleep_Inr [OF Inr] f1 pi ck show ?thesis
      by (auto intro: frame_trans)
  next
    case (Inl q)
    with r have "r = Inl q"
      by (simp add: finish_cycle_def Let_def s1_def)
    with sleep_Inl [OF Inl] f1 pi show ?thesis
      by (cases q) auto
  qed
qed

lemma handler_frame:
  assumes "cycle_body env lp s = Inl (x, s1)"
  shows "frame s1 (snd (poll_cycle env lp s)) \<and>
         (\<forall>lp'. fst (poll_cycle env lp s) = Continue lp' \<longrightarrow> lp' = lp) \<and>
         (sleep_accepts (poll_interval s1) \<longrightarrow>
            fst (poll_cycle env lp s) = Continue lp \<and>
            (\<exists>d. poll_interval s1 = Finite d \<and>
                 clock s1 + d \<le> clock (snd (poll_cycle env lp s))))"
proof -
  define s2 where "s2 = log_event ERROR ''Polling loop error: %s'' s1"
  have f: "frame s1 s2"
    by (simp add: s2_def)
  have pi: "poll_interval s2 = poll_interval s1" and ck: "clock s2 = clock s1"
    by (simp_all add: s2_def log_event_def)
  show ?thesis
  proof (cases "sleep (poll_interval s1) (t_oversleep env) s2")
    case (Inr s3)
    with assms have "poll_cycle env lp s = (Continue lp, s3)"
      by (simp add: poll_cycle_def s2_def)
    with sleep_Inr [OF Inr] f ck show ?thesis
      by (auto intro: frame_trans)
  next
    case (Inl q)
    obtain y s3 where q: "q = (y, s3)" by (cases q)
    with Inl assms have "poll_cycle env lp s = (Crash y, s3)"
      by (simp add: poll_cycle_def s2_def)
    with sleep_Inl [OF Inl] q f show ?thesis
      by auto
  qed
qed

lemma handler_logged:
  assumes "cycle_body env lp s = Inl (x, s1)"
  shows "logged s1 (snd (poll_cycle env lp s))"
proof -
  define s2 where "s2 = log_event ERROR ''Polling loop error: %s'' s1"
  have l: "logged s1 s2" by (simp add: s2_def)
  show ?thesis
  proof (cases "sleep (poll_interval s1) (t_oversleep env) s2")
    case (Inr s3)
    with assms have "poll_cycle env lp s = (Continue lp, s3)"
      by (simp add: poll_cycle_def s2_def)
    with sleep_Inr [OF Inr] l show ?thesis
      by (auto intro: logged_before frame_prefix)
  next
    case (Inl q)
    obtain y s3 where q: "q = (y, s3)" by (cases q)
    with Inl assms have "poll_cycle env lp s = (Crash y, s3)"
      by (simp add: poll_cycle_def s2_def)
    with sleep_Inl [OF Inl] q l show ?thesis
      by auto
  qed
qed

text \<open>
  A cycle that does not reach the fetch: the first sleep raises, or the ping fails.
\<close>

lemma poll_cycle_no_fetch:
  assumes "isl (throttle env lp s) \<or> ping env \<noteq> PingExit 0"
  shows "frame s (snd (poll_cycle env lp s)) \<and>
         logged s (snd (poll_cycle env lp s)) \<and>
         (\<forall>lp'. fst (poll_cycle env lp s) = Continue lp' \<longrightarrow> lp' = lp) \<and>
         (sleep_accepts (poll_interval s) \<longrightarrow> fst (poll_cycle env lp s) = Continue lp)"
proof (cases "throttle env lp s")
  case (Inl q)
  obtain x s1 where q: "q = (x, s1)" by (cases q)
  from throttle_Inl [OF Inl] q have f1: "frame s s1" by simp
  have cb: "cycle_body env lp s = Inl (x, s1)"
    using Inl q by (simp add: cycle_body_def Let_def)
  from frame_fields [OF f1] have pi: "poll_interval s1 = poll_interval s" by simp
  from handler_logged [OF cb] frame_prefix [OF f1]
  have "logged s (snd (poll_cycle env lp s))" by (blast intro: logged_after)
  with handler_frame [OF cb] f1 pi show ?thesis
    by (auto intro: frame_trans)
next
  case (Inr s1)
  with assms have p: "ping env \<noteq> PingExit 0" by simp
  from throttle_Inr [OF Inr] have f1: "frame s s1" .
  obtain b s2 where pd: "ping_device env s1 = (b, s2)" by (cases "ping_device env s1")
  from ping_device_frame [OF pd] p have b: "\<not> b" and f2: "frame s1 s2" by auto
  from ping_device_logged [OF p pd] have l2: "logged s1 s2" .
  define s2' where "s2' = log_event WARNING ''Device %s unreachable, skipping fetch'' s2"
  have f3: "frame s2 s2'" by (simp add: s2'_def)
  have f02: "frame s s2'"
    using f1 f2 f3 by (blast intro: frame_trans)
  have pi2: "poll_interval s2 = poll_interval s" "poll_interval s2' = poll_interval s"
    using frame_fields [OF frame_trans [OF f1 f2]] frame_fields [OF f02] by simp_all
  have rest: "frame s2' (snd (poll_cycle env lp s)) \<and>
         (\<forall>lp'. fst (poll_cycle env lp s) = Continue lp' \<longrightarrow> lp' = lp) \<and>
         (sleep_accepts (poll_interval s) \<longrightarrow> fst (poll_cycle env lp s) = Continue lp)"
  proof (cases "sleep (poll_interval s2) (t_oversleep env) s2'")
    case s3: (Inr s3)
    have "cycle_body env lp s = Inr (lp, s3)"
      using Inr pd b s3 by (simp add: cycle_body_def Let_def s2'_def)
    with sleep_Inr [OF s3] show ?thesis by (simp add: poll_cycle_def)
  next
    case (Inl r)
    obtain y s3 where r: "r = (y, s3)" by (cases r)
    from sleep_Inl [OF Inl] r have s3: "s3 = s2'" by simp
    have cb: "cycle_body env lp s = Inl (y, s2')"
      using Inr pd b Inl r s3 by (simp add: cycle_body_def Let_def s2'_def)
    from handler_frame [OF cb] pi2 show ?thesis by simp
  qed
  then have "prefix (trace s2) (trace (snd (poll_cycle env lp s)))"
    using f3 by (blast intro: frame_trans frame_prefix)
  with l2 have "logged s1 (snd (poll_cycle env lp s))" by (rule logged_before)
  with frame_prefix [OF f1] have "logged s (snd (poll_cycle env lp s))" by (rule logged_after)
  with rest f02 show ?thesis
    by (auto intro: frame_trans)
qed

text \<open>A cycle that reaches the fetch, from the state \<open>s0\<close> in which the fetch starts.\<close>

lemma poll_cycle_reachable:
  assumes t: "\<not> isl (throttle env lp s)"
    and p: "ping env = PingExit 0"
  shows "\<exists>s0 s4. frame s s0 \<and>
           s4 = published env (gui_interleave env (fetch_tank_levels env s0)) \<and>
           frame s4 (snd (poll_cycle env lp s)) \<and>
           (\<forall>lp'. fst (poll_cycle env lp s) = Continue lp' \<longrightarrow>
              lp' = lp \<or> lp' \<le> clock (snd (poll_cycle env lp s))) \<and>
           (running (gui_interleave env (fetch_tank_levels env s0)) \<and> after env \<noteq> Scheduled \<longrightarrow>
              logged s4 (snd (poll_cycle env lp s))) \<and>
           (sleep_accepts (poll_interval s4) \<longrightarrow>
              (\<exists>lp'. fst (poll_cycle env lp s) = Continue lp') \<and>
              (\<exists>d. poll_interval s4 = Finite d \<and>
                   clock s4 + d \<le> clock (snd (poll_cycle env lp s))))"
proof -
  from t obtain s1 where th: "throttle env lp s = Inr s1"
    by (cases "throttle env lp s") auto
  from throttle_Inr [OF th] have f1: "frame s s1" .
  obtain b s2 where pd: "ping_device env s1 = (b, s2)" by (cases "ping_device env s1")
  from ping_device_frame [OF pd] p have b: "b" and f2: "frame s1 s2" by auto
  have f0: "frame s s2" using f1 f2 by (rule frame_trans)
  define s3 where "s3 = gui_interleave env (fetch_tank_levels env s2)"
  define s4 where "s4 = published env s3"
  have cb: "cycle_body env lp s =
      (case schedule_gui env s3 of Inl r \<Rightarrow> Inl r | Inr s' \<Rightarrow> finish_cycle env (clock s) s')"
    using th pd b by (simp add: cycle_body_def Let_def s3_def)
  from schedule_gui_published [of env s3]
  have "frame s4 (snd (poll_cycle env lp s)) \<and>
           (\<forall>lp'. fst (poll_cycle env lp s) = Continue lp' \<longrightarrow>
              lp' = lp \<or> lp' \<le> clock (snd (poll_cycle env lp s))) \<and>
           (running s3 \<and> after env \<noteq> Scheduled \<longrightarrow> logged s4 (snd (poll_cycle env lp s))) \<and>
           (sleep_accepts (poll_interval s4) \<longrightarrow>
              (\<exists>lp'. fst (poll_cycle env lp s) = Continue lp') \<and>
              (\<exists>d. poll_interval s4 = Finite d \<and>
                   clock s4 + d \<le> clock (snd (poll_cycle env lp s))))"
  proof
    assume sg: "schedule_gui env s3 = Inr (published env s3)"
    then have cb': "cycle_body env lp s = finish_cycle env (clock s) s4"
      by (simp add: cb s4_def)
    from sg have nr: "\<not> (running s3 \<and> after env \<noteq> Scheduled)"
      by (cases "after env") (auto simp: schedule_gui_def)
    show ?thesis
    proof (cases "finish_cycle env (clock s) s4")
      case (Inr q)
      obtain lp' s5 where q: "q = (lp', s5)" by (cases q)
      from finish_cycle_frame [OF Inr] q
      have "frame s4 s5" "lp' = clock s4" "\<exists>d. poll_interval s4 = Finite d \<and> clock s4 + d \<le> clock s5"
        by auto
      moreover from this(1) have "clock s4 \<le> clock s5" by (simp add: frame_fields)
      moreover have "poll_cycle env lp s = (Continue lp', s5)"
        using cb' Inr q by (simp add: poll_cycle_def)
      ultimately show ?thesis using nr by auto
    next
      case (Inl q)
      obtain x s5 where q: "q = (x, s5)" by (cases q)
      from finish_cycle_frame [OF Inl] q
      have f: "frame s4 s5" and na: "\<not> sleep_accepts (poll_interval s4)"
        by auto
      have "cycle_body env lp s = Inl (x, s5)" using cb' Inl q by simp
      from handler_frame [OF this] f na nr show ?thesis
        by (auto intro: frame_trans)
    qed
  next
    assume "\<exists>x. schedule_gui env s3 = Inl (x, s3) \<and> published env s3 = s3"
    then obtain x where sg: "schedule_gui env s3 = Inl (x, s3)" and pb: "s4 = s3"
      by (auto simp: s4_def)
    have c: "cycle_body env lp s = Inl (x, s3)" using sg by (simp add: cb)
    from handler_frame [OF c] handler_logged [OF c] pb show ?thesis by auto
  qed
  with f0 show ?thesis
    unfolding s4_def s3_def by blast
qed

lemma failed_cycle:
  assumes ff: "fetch_fails env"
  shows "tank_levels (snd (poll_cycle env lp s)) = tank_levels s \<and>
         last_update (snd (poll_cycle env lp s)) = last_update s \<and>
         db (snd (poll_cycle env lp s)) = db s \<and>
         (lp \<le> clock s \<and> ping env = PingExit 0 \<and> running s \<and> gui_thread env = None \<and>
          after env = Scheduled \<longrightarrow>
            (\<exists>t. clock s \<le> t \<and> gui_scheduled (snd (poll_cycle env lp s)) = gui_scheduled s @ [t]))"
proof (cases "isl (throttle env lp s) \<or> ping env \<noteq> PingExit 0")
  case True
  from poll_cycle_no_fetch [OF True] have f: "frame s (snd (poll_cycle env lp s))"
    by simp
  have "\<not> isl (throttle env lp s)" if "lp \<le> clock s"
    using throttle_returns [OF that, of env] by auto
  with frame_fields [OF f] True show ?thesis by auto
next
  case False
  then have t: "\<not> isl (throttle env lp s)" and p: "ping env = PingExit 0" by simp_all
  from poll_cycle_reachable [OF t p] obtain s0 where f0: "frame s s0"
    and f4: "frame (published env (gui_interleave env (fetch_tank_levels env s0)))
               (snd (poll_cycle env lp s))"
    by blast
  define s1 where "s1 = fetch_tank_levels env s0"
  define s3 where "s3 = gui_interleave env s1"
  note a = frame_fields [OF f0]
  note b = fetch_fails_unchanged [OF ff, of s0, folded s1_def]
  have k: "keeps s0 s1" unfolding s1_def by (rule fetch_tank_levels_keeps)
  note c = cframe_fields [OF gui_interleave_cframe [of s1 env], folded s3_def]
  note d = published_fields [of env s3]
  note e = frame_fields [OF f4 [folded s1_def, folded s3_def]]
  have acq: "tank_levels (snd (poll_cycle env lp s)) = tank_levels s \<and>
         last_update (snd (poll_cycle env lp s)) = last_update s \<and>
         db (snd (poll_cycle env lp s)) = db s"
    using a b c d e by simp
  have "\<exists>t. clock s \<le> t \<and> gui_scheduled (snd (poll_cycle env lp s)) = gui_scheduled s @ [t]"
    if r: "running s" and g: "gui_thread env = None" and sc: "after env = Scheduled"
  proof -
    from g have s3: "s3 = s1" by (simp add: s3_def gui_interleave_None)
    from k a r have "running s1" "gui_scheduled s1 = gui_scheduled s" "clock s \<le> clock s1"
      by (simp_all add: keeps_def)
    with d e sc s3 show ?thesis by simp
  qed
  with acq show ?thesis by blast
qed

lemma successful_cycle:
  assumes lp: "lp \<le> clock s"
    and p: "ping env = PingExit 0"
    and c: "client s \<noteq> None"
    and e: "ensure_connected env = Inr True"
    and r: "read env = Registers (r0 # r1 # r2 # rest)"
    and n: "length (tank_levels s) = 6"
  shows "\<exists>t. clock s \<le> t \<and>
     map level (tank_levels (snd (poll_cycle env lp s))) =
       [transform r0 582000, transform r1 20000, transform r2 (1747868 / 100),
        transform r2 (1747868 / 100), transform r1 20000, transform r1 20000] \<and>
     map tank_id (tank_levels (snd (poll_cycle env lp s))) = map tank_id (tank_levels s) \<and>
     last_update (snd (poll_cycle env lp s)) = Some (t + int (t_modbus env)) \<and>
     db (snd (poll_cycle env lp s)) =
       (if db_write env = Committed
        then db s @ [((t + int (t_modbus env) + int (t_db env)) div 1000000,
                      raw_level r0 582000, raw_level r1 20000, raw_level r2 (1747868 / 100))]
        else db s) \<and>
     (sleep_accepts (poll_interval s) \<longrightarrow>
        (\<exists>d. poll_interval s = Finite d \<and>
             t + int (t_modbus env) + d \<le> clock (snd (poll_cycle env lp s)))) \<and>
     (running s \<and> gui_thread env = None \<and> after env = Scheduled \<longrightarrow>
        gui_scheduled (snd (poll_cycle env lp s)) =
          gui_scheduled s @ [t + int (t_modbus env) + int (t_db env)])"
proof -
  have th: "\<not> isl (throttle env lp s)"
    using throttle_returns [OF lp, of env] by auto
  from poll_cycle_reachable [OF th p] obtain s0 where f0: "frame s s0"
    and f4: "frame (published env (gui_interleave env (fetch_tank_levels env s0)))
               (snd (poll_cycle env lp s))"
    and cl: "sleep_accepts (poll_interval (published env (gui_interleave env (fetch_tank_levels env s0)))) \<longrightarrow>
       (\<exists>d. poll_interval (published env (gui_interleave env (fetch_tank_levels env s0))) = Finite d \<and>
         clock (published env (gui_interleave env (fetch_tank_levels env s0))) + d
           \<le> clock (snd (poll_cycle env lp s)))"
    by blast
  define s1 where "s1 = fetch_tank_levels env s0"
  define s3 where "s3 = gui_interleave env s1"
  note a = frame_fields [OF f0]
  from a c n have c0: "client s0 \<noteq> None" and n0: "length (tank_levels s0) = 6" by simp_all
  note b = fetch_succeeds [OF c0 e r n0, folded s1_def]
  have k: "keeps s0 s1" unfolding s1_def by (rule fetch_tank_levels_keeps)
  note cf = cframe_fields [OF gui_interleave_cframe [of s1 env], folded s3_def]
  note d = published_fields [of env s3]
  note f = frame_fields [OF f4 [folded s1_def, folded s3_def]]
  have 1: "map level (tank_levels (snd (poll_cycle env lp s))) =
       [transform r0 582000, transform r1 20000, transform r2 (1747868 / 100),
        transform r2 (1747868 / 100), transform r1 20000, transform r1 20000]"
    using b cf d f by simp
  have 2: "map tank_id (tank_levels (snd (poll_cycle env lp s))) = map tank_id (tank_levels s)"
    using a b cf d f by simp
  have 3: "last_update (snd (poll_cycle env lp s)) = Some (clock s0 + int (t_modbus env))"
    using b cf d f by simp
  have 4: "db (snd (poll_cycle env lp s)) =
       (if db_write env = Committed
        then db s @ [((clock s0 + int (t_modbus env) + int (t_db env)) div 1000000,
                      raw_level r0 582000, raw_level r1 20000, raw_level r2 (1747868 / 100))]
        else db s)"
    using a b cf d f by simp
  have pi: "poll_interval (published env s3) = poll_interval s"
    using a k cf d by (simp add: keeps_def)
  have ck: "clock s0 + int (t_modbus env) \<le> clock (published env s3)"
    using b cf d by simp
  have 5: "sleep_accepts (poll_interval s) \<longrightarrow>
        (\<exists>d. poll_interval s = Finite d \<and>
             clock s0 + int (t_modbus env) + d \<le> clock (snd (poll_cycle env lp s)))"
    using cl [folded s1_def, folded s3_def] pi ck by auto
  have 6: "gui_scheduled (snd (poll_cycle env lp s)) =
          gui_scheduled s @ [clock s0 + int (t_modbus env) + int (t_db env)]"
    if ru: "running s" and g: "gui_thread env = None" and sc: "after env = Scheduled"
  proof -
    from g have s3: "s3 = s1" by (simp add: s3_def gui_interleave_None)
    from k a ru have "running s1" "gui_scheduled s1 = gui_scheduled s"
      by (simp_all add: keeps_def)
    with b d f sc s3 show ?thesis by simp
  qed
  from a have 0: "clock s \<le> clock s0" by simp
  show ?thesis
    apply (rule exI [of _ "clock s0"])
    apply (intro conjI)
          apply (rule 0)
         apply (rule 1)
        apply (rule 2)
       apply (rule 3)
      apply (rule 4)
     apply (rule 5)
    apply (rule impI)
    apply (rule 6)
      apply simp_all
    done
qed

text \<open>What every cycle keeps, whatever happens in it.\<close>

lemma poll_cycle_general:
  "poll_interval (snd (poll_cycle env lp s)) = poll_interval s \<and>
   stale_threshold (snd (poll_cycle env lp s)) = stale_threshold s \<and>
   length (tank_levels (snd (poll_cycle env lp s))) = length (tank_levels s) \<and>
   (client (snd (poll_cycle env lp s)) = None \<longleftrightarrow> client s = None) \<and>
   prefix (db s) (db (snd (poll_cycle env lp s))) \<and>
   prefix (trace s) (trace (snd (poll_cycle env lp s))) \<and>
   clock s \<le> clock (snd (poll_cycle env lp s)) \<and>
   (gui_thread env = None \<longrightarrow> running (snd (poll_cycle env lp s)) = running s) \<and>
   (\<forall>lp'. fst (poll_cycle env lp s) = Continue lp' \<longrightarrow>
      lp' = lp \<or> lp' \<le> clock (snd (poll_cycle env lp s))) \<and>
   (sleep_accepts (poll_interval s) \<longrightarrow> (\<exists>lp'. fst (poll_cycle env lp s) = Continue lp'))"
proof (cases "isl (throttle env lp s) \<or> ping env \<noteq> PingExit 0")
  case True
  from poll_cycle_no_fetch [OF True] frame_fields [of s "snd (poll_cycle env lp s)"]
  show ?thesis by auto
next
  case False
  then have t: "\<not> isl (throttle env lp s)" and p: "ping env = PingExit 0" by simp_all
  from poll_cycle_reachable [OF t p] obtain s0 where f0: "frame s s0"
    and f4: "frame (published env (gui_interleave env (fetch_tank_levels env s0)))
               (snd (poll_cycle env lp s))"
    and lpc: "\<forall>lp'. fst (poll_cycle env lp s) = Continue lp' \<longrightarrow>
              lp' = lp \<or> lp' \<le> clock (snd (poll_cycle env lp s))"
    and cl: "sleep_accepts (poll_interval (published env (gui_interleave env (fetch_tank_levels env s0)))) \<longrightarrow>
       (\<exists>lp'. fst (poll_cycle env lp s) = Continue lp')"
    by blast
  define s1 where "s1 = fetch_tank_levels env s0"
  define s3 where "s3 = gui_interleave env s1"
  note a = frame_fields [OF f0]
  have k: "keeps s0 s1" unfolding s1_def by (rule fetch_tank_levels_keeps)
  note c = cframe_fields [OF gui_interleave_cframe [of s1 env], folded s3_def]
  note d = published_fields [of env s3]
  have d': "tank_levels (published env s3) = tank_levels s3" "client (published env s3) = client s3"
    by (simp_all add: published_def)
  note e = frame_fields [OF f4 [folded s1_def, folded s3_def]]
  have pi: "poll_interval (published env s3) = poll_interval s"
    using a k c d by (simp add: keeps_def)
  have 1: "poll_interval (snd (poll_cycle env lp s)) = poll_interval s"
    using pi e by simp
  have 2: "stale_threshold (snd (poll_cycle env lp s)) = stale_threshold s"
    using a k c d e by (simp add: keeps_def)
  have 3: "length (tank_levels (snd (poll_cycle env lp s))) = length (tank_levels s)"
    "client (snd (poll_cycle env lp s)) = None \<longleftrightarrow> client s = None"
    using a k c d' e by (simp_all add: keeps_def)
  have "prefix (db s) (db s1)" using a k by (simp add: keeps_def)
  then have 4: "prefix (db s) (db (snd (poll_cycle env lp s)))"
    using c d e by simp
  have "prefix (trace s) (trace s0)" "prefix (trace s0) (trace s1)" "prefix (trace s1) (trace s3)"
    "prefix (trace s3) (trace (snd (poll_cycle env lp s)))"
    using a k c d e by (simp_all add: keeps_def)
  then have 5: "prefix (trace s) (trace (snd (poll_cycle env lp s)))"
    by (meson prefix_order.trans)
  have 6: "clock s \<le> clock (snd (poll_cycle env lp s))"
    using a k c d e by (simp add: keeps_def)
  have 7: "gui_thread env = None \<longrightarrow> running (snd (poll_cycle env lp s)) = running s"
  proof
    assume "gui_thread env = None"
    then have "s3 = s1" by (simp add: s3_def gui_interleave_None)
    with a k d e show "running (snd (poll_cycle env lp s)) = running s"
      by (simp add: keeps_def)
  qed
  have 8: "sleep_accepts (poll_interval s) \<longrightarrow> (\<exists>lp'. fst (poll_cycle env lp s) = Continue lp')"
    using cl [folded s1_def, folded s3_def] pi by simp
  from 1 2 3 4 5 6 7 lpc 8 show ?thesis by (intro conjI)
qed

lemma poll_cycle_stale_threshold:
  "stale_threshold (snd (poll_cycle env lp s)) = stale_threshold s"
  using poll_cycle_general [of env lp s] by simp

text \<open>The hypotheses on the state used below are kept by every cycle.\<close>

lemma poll_cycle_invariants:
  "length (tank_levels (snd (poll_cycle env lp s))) = length (tank_levels s) \<and>
   (client (snd (poll_cycle env lp s)) = None \<longleftrightarrow> client s = None)"
  using poll_cycle_general [of env lp s] by simp

lemma poll_cycle_last_poll_time:
  "lp \<le> clock s \<Longrightarrow> poll_cycle env lp s = (Continue lp', s') \<Longrightarrow> lp' \<le> clock s'"
  using poll_cycle_general [of env lp s] by auto

lemma after_raised_logged:
  assumes t: "\<not> isl (throttle env lp s)"
    and p: "ping env = PingExit 0"
    and r: "running s"
    and a: "after env \<noteq> Scheduled"
    and g: "gui_thread env = None"
  shows "logged s (snd (poll_cycle env lp s))"
proof -
  from poll_cycle_reachable [OF t p] obtain s0 where f0: "frame s s0"
    and lg: "running (gui_interleave env (fetch_tank_levels env s0)) \<and> after env \<noteq> Scheduled \<longrightarrow>
              logged (published env (gui_interleave env (fetch_tank_levels env s0)))
                (snd (poll_cycle env lp s))"
    by blast
  define s1 where "s1 = fetch_tank_levels env s0"
  have k: "keeps s0 s1" unfolding s1_def by (rule fetch_tank_levels_keeps)
  from g have s3: "gui_interleave env s1 = s1" by (simp add: gui_interleave_None)
  from frame_fields [OF f0] k r have r1: "running s1" by (simp add: keeps_def)
  from lg [folded s1_def] s3 r1 a have "logged (published env s1) (snd (poll_cycle env lp s))"
    by simp
  moreover have "trace (published env s1) = trace s1" by (simp add: published_fields)
  ultimately have "logged s1 (snd (poll_cycle env lp s))" by (simp add: logged_def)
  moreover have "prefix (trace s) (trace s1)"
    using frame_prefix [OF f0] keeps_prefix [OF k] by auto
  ultimately show ?thesis by (rule logged_after [rotated])
qed

lemma failed_fetch_logged:
  assumes t: "\<not> isl (throttle env lp s)"
    and p: "ping env = PingExit 0"
    and e: "fetch_fails env \<or> db_write env \<noteq> Committed"
  shows "logged s (snd (poll_cycle env lp s))"
proof -
  from poll_cycle_reachable [OF t p] obtain s0 where f0: "frame s s0"
    and f4: "frame (published env (gui_interleave env (fetch_tank_levels env s0)))
               (snd (poll_cycle env lp s))"
    by blast
  define s1 where "s1 = fetch_tank_levels env s0"
  define s3 where "s3 = gui_interleave env s1"
  have l: "logged s0 s1" unfolding s1_def by (rule fetch_tank_levels_logged [OF e])
  have "prefix (trace s1) (trace s3)"
    unfolding s3_def by (rule cframe_prefix [OF gui_interleave_cframe])
  moreover have "trace (published env s3) = trace s3" by (simp add: published_fields)
  moreover have "prefix (trace (published env s3)) (trace (snd (poll_cycle env lp s)))"
    using f4 unfolding s1_def s3_def by (rule frame_prefix)
  ultimately have "prefix (trace s1) (trace (snd (poll_cycle env lp s)))" by auto
  with l have "logged s0 (snd (poll_cycle env lp s))" by (rule logged_before)
  with frame_prefix [OF f0] show ?thesis by (rule logged_after)
qed

lemma erroneous_cycle_logged:
  assumes "running s"
    and "ping env \<noteq> PingExit 0 \<or> fetch_fails env \<or> db_write env \<noteq> Committed \<or>
         (after env \<noteq> Scheduled \<and> gui_thread env = None)"
  shows "logged s (snd (poll_cycle env lp s))"
proof (cases "isl (throttle env lp s) \<or> ping env \<noteq> PingExit 0")
  case True
  from poll_cycle_no_fetch [OF True] show ?thesis by simp
next
  case False
  then have t: "\<not> isl (throttle env lp s)" and p: "ping env = PingExit 0" by simp_all
  show ?thesis
  proof (cases "fetch_fails env \<or> db_write env \<noteq> Committed")
    case True
    with t p show ?thesis by (rule failed_fetch_logged)
  next
    case False
    with assms(2) p have "after env \<noteq> Scheduled" "gui_thread env = None" by auto
    with t p assms(1) show ?thesis by (rule after_raised_logged)
  qed
qed

subsection \<open>The polling loop\<close>

lemma poll_loop_db: "prefix (db s) (db (snd (snd (poll_loop envs lp n s))))"
proof (induction envs arbitrary: lp n s)
  case Nil
  show ?case by simp
next
  case (Cons env envs)
  obtain r s1 where pc: "poll_cycle env lp s = (r, s1)" by (cases "poll_cycle env lp s")
  from poll_cycle_general [of env lp s] pc have p1: "prefix (db s) (db s1)" by simp
  show ?case
  proof (cases "running s")
    case False
    then show ?thesis by simp
  next
    case True
    show ?thesis
    proof (cases r)
      case (Crash x)
      with True pc p1 show ?thesis by simp
    next
      case (Continue lp')
      from Cons.IH [where lp = lp' and n = "Suc n" and s = s1] p1
      have "prefix (db s) (db (snd (snd (poll_loop envs lp' (Suc n) s1))))"
        by (rule prefix_order.trans [rotated])
      with True pc Continue show ?thesis by simp
    qed
  qed
qed

lemma poll_loop_survives:
  "sleep_accepts (poll_interval s) \<Longrightarrow>
     (\<forall>x. fst (poll_loop envs lp n s) \<noteq> Died x) \<and>
     (fst (poll_loop envs lp n s) = Exited \<longrightarrow> \<not> running (snd (snd (poll_loop envs lp n s)))) \<and>
     (fst (poll_loop envs lp n s) = Polling \<longrightarrow>
        running (snd (snd (poll_loop envs lp n s))) \<and>
        fst (snd (poll_loop envs lp n s)) = n + length envs)"
proof (induction envs arbitrary: lp n s)
  case Nil
  show ?case by simp
next
  case (Cons env envs)
  obtain r s1 where pc: "poll_cycle env lp s = (r, s1)" by (cases "poll_cycle env lp s")
  from poll_cycle_general [of env lp s] pc Cons.prems
  obtain lp' where r: "r = Continue lp'" and pi: "sleep_accepts (poll_interval s1)" by auto
  show ?case
  proof (cases "running s")
    case False
    then show ?thesis by simp
  next
    case True
    from Cons.IH [OF pi, where lp = lp' and n = "Suc n"] True pc r show ?thesis by simp
  qed
qed

lemma poll_loop_keeps_polling:
  "running s \<Longrightarrow> sleep_accepts (poll_interval s) \<Longrightarrow>
     list_all (\<lambda>env. gui_thread env = None) envs \<Longrightarrow>
     fst (poll_loop envs lp n s) = Polling"
proof (induction envs arbitrary: lp n s)
  case Nil
  then show ?case by simp
next
  case (Cons env envs)
  obtain r s1 where pc: "poll_cycle env lp s = (r, s1)" by (cases "poll_cycle env lp s")
  from Cons.prems have g: "gui_thread env = None" and rest: "list_all (\<lambda>env. gui_thread env = None) envs"
    by simp_all
  from poll_cycle_general [of env lp s] pc Cons.prems(1,2) g
  obtain lp' where r: "r = Continue lp'" and pi: "sleep_accepts (poll_interval s1)"
    and ru: "running s1"
    by auto
  from Cons.IH [OF ru pi rest, where lp = lp' and n = "Suc n"] Cons.prems(1) pc r show ?case by simp
qed

text \<open>
  The general statement behind claim C4, for the poll intervals \<^verbatim>\<open>time.sleep\<close>
  accepts: the thread never dies, it leaves the loop only with \<^verbatim>\<open>running\<close> cleared,
  every cycle is run while no cleanup intervenes, and a cycle that meets an error
  logs it and continues.
\<close>

lemma loop_survives_errors:
  "sleep_accepts (poll_interval s) \<Longrightarrow>
     (\<forall>x. fst (modbus_polling envs s) \<noteq> Died x) \<and>
     (fst (modbus_polling envs s) = Exited \<longrightarrow> \<not> running (snd (snd (modbus_polling envs s)))) \<and>
     (running s \<and> list_all (\<lambda>env. gui_thread env = None) envs \<longrightarrow>
        fst (modbus_polling envs s) = Polling \<and>
        fst (snd (modbus_polling envs s)) = length envs \<and>
        running (snd (snd (modbus_polling envs s)))) \<and>
     (running s \<and>
      (ping env \<noteq> PingExit 0 \<or> fetch_fails env \<or> db_write env \<noteq> Committed \<or>
       (after env \<noteq> Scheduled \<and> gui_thread env = None)) \<longrightarrow>
        logged s (snd (poll_cycle env lp s)) \<and>
        (\<exists>lp'. fst (poll_cycle env lp s) = Continue lp'))"
proof -
  assume pi: "sleep_accepts (poll_interval s)"
  note a = poll_loop_survives [OF pi, of envs "clock s" 0]
  have b: "fst (modbus_polling envs s) = Polling"
    if "running s" "list_all (\<lambda>env. gui_thread env = None) envs"
    using poll_loop_keeps_polling [OF that(1) pi that(2)] by (simp add: modbus_polling_def)
  have c: "logged s (snd (poll_cycle env lp s))"
    if "running s" "ping env \<noteq> PingExit 0 \<or> fetch_fails env \<or> db_write env \<noteq> Committed \<or>
       (after env \<noteq> Scheduled \<and> gui_thread env = None)"
    using that by (rule erroneous_cycle_logged)
  have d: "\<exists>lp'. fst (poll_cycle env lp s) = Continue lp'"
    using poll_cycle_general [of env lp s] pi by simp
  from a b c d show ?thesis
    unfolding modbus_polling_def by simp
qed

lemma missed_cycle_stale:
  assumes ru: "running s"
    and pv: "poll_interval s = Finite d"
    and th: "stale_threshold s < d"
    and pi: "0 \<le> d"
    and mx: "d \<le> SLEEP_MAX"
    and p1: "ping env1 = PingExit 0"
    and c: "client s \<noteq> None"
    and e1: "ensure_connected env1 = Inr True"
    and r1: "read env1 = Registers (r0 # r1 # r2 # rest)"
    and n: "length (tank_levels s) = 6"
    and g1: "gui_thread env1 = None"
    and p2: "ping env2 = PingExit 0"
    and ff: "fetch_fails env2"
    and g2: "gui_thread env2 = None"
    and a2: "after env2 = Scheduled"
  shows "\<exists>t2 s2. modbus_polling [env1, env2] s = (Polling, 2, s2) \<and>
           gui_scheduled s2 = gui_scheduled (snd (poll_cycle env1 (clock s) s)) @ [t2] \<and>
           (\<forall>now. t2 \<le> now \<longrightarrow> is_stale now s2)"
proof -
  from pv pi mx have sa: "sleep_accepts (poll_interval s)"
    by (simp add: sleep_accepts_def)
  obtain q1 s1 where pc1: "poll_cycle env1 (clock s) s = (q1, s1)"
    by (cases "poll_cycle env1 (clock s) s")
  from poll_cycle_general [of env1 "clock s" s] pc1 sa g1 ru
  obtain lp1 where q1: "q1 = Continue lp1" and pi1: "poll_interval s1 = poll_interval s"
    and ru1: "running s1" and st1: "stale_threshold s1 = stale_threshold s"
    by auto
  from poll_cycle_last_poll_time [of "clock s" s env1 lp1 s1] pc1 q1
  have lp1: "lp1 \<le> clock s1" by simp
  from successful_cycle [OF order_refl p1 c e1 r1 n] pc1 sa pv
  obtain t where lu1: "last_update s1 = Some (t + int (t_modbus env1))"
    and ck1: "t + int (t_modbus env1) + d \<le> clock s1"
    by auto
  obtain q2 s2 where pc2: "poll_cycle env2 lp1 s1 = (q2, s2)"
    by (cases "poll_cycle env2 lp1 s1")
  from poll_cycle_general [of env2 lp1 s1] pc2 sa pi1 g2 ru1 st1
  obtain lp2 where q2: "q2 = Continue lp2" and ru2: "running s2"
    and st2: "stale_threshold s2 = stale_threshold s"
    by auto
  from failed_cycle [OF ff, of lp1 s1] pc2 p2 ru1 g2 a2 lu1 lp1
  obtain t2 where lu2: "last_update s2 = Some (t + int (t_modbus env1))"
    and t2: "clock s1 \<le> t2" and gs: "gui_scheduled s2 = gui_scheduled s1 @ [t2]"
    by auto
  have loop: "modbus_polling [env1, env2] s = (Polling, 2, s2)"
    using ru ru1 ru2 pc1 pc2 q1 q2 by (simp add: modbus_polling_def)
  have stale: "is_stale now s2" if "t2 \<le> now" for now
    using that t2 ck1 th lu2 st2 by (simp add: is_stale_def)
  from loop gs stale pc1 show ?thesis by auto
qed

subsection \<open>Cleanup\<close>

lemma confirm_exit_wrong:
  "root_alive s \<Longrightarrow> ask env = Answer a \<Longrightarrow> a \<noteq> Some ''12345'' \<Longrightarrow> \<not> showerror_raises env \<Longrightarrow>
   confirm_exit env s =
     (False, s\<lparr>trace := trace s @
        (if a = None then [AskString]
         else [AskString, Log WARNING ''Incorrect exit code entered'', ShowError])\<rparr>)"
  by (simp add: confirm_exit_def emit_def log_event_def Let_def)

lemma cleaned_up_teardown: "cleaned_up (teardown env s)"
  by (simp add: teardown_def emit_def log_event_def Let_def)

lemma init_first_start: "init first_start = Inr started"
  by (simp add: init_def first_start_def started_def load_config_def default_config_def
      DEFAULT_POLL_INTERVAL_def MIN_POLL_INTERVAL_def startup_database_def)

lemma cleanup_db: "db (cleanup env s) = db s"
  using cleanup_cframe [of s env] by (simp add: cframe_fields)

lemma init_establishes:
  "init env = Inr s \<Longrightarrow>
     running s \<and> \<not> cleaned_up s \<and> last_update s = None \<and>
     poll_interval s = Finite DEFAULT_POLL_INTERVAL \<and> sleep_accepts (poll_interval s) \<and>
     stale_threshold s < DEFAULT_POLL_INTERVAL \<and>
     length (tank_levels s) = 6 \<and> db s = startup_database (remove_ok env) (existing_db env)"
  by (auto simp: init_def Let_def MIN_POLL_INTERVAL_def DEFAULT_POLL_INTERVAL_def load_config_def
      default_config_def initial_tank_levels_def CAPACITIES_def sleep_accepts_def SLEEP_MAX_def
      split: if_splits option.splits)

lemma init_restart: "init restart = Inr started"
  by (simp add: init_def restart_def first_start_def started_def load_config_def default_config_def
      DEFAULT_POLL_INTERVAL_def MIN_POLL_INTERVAL_def startup_database_def)

subsection \<open>The settings window\<close>

text \<open>
  \<^verbatim>\<open>save\<close> stores every interval that is not below the minimum: there is no upper
  bound, and NaN passes because the comparison with it is false.
\<close>

lemma save_stores:
  "client s \<noteq> None \<Longrightarrow> \<not> float_less v (Finite MIN_POLL_INTERVAL) \<Longrightarrow>
     \<exists>s'. save new_ip (Some v) s = Inr s' \<and> poll_interval s' = v \<and> running s' = running s"
  by (auto simp: save_def Let_def)

lemma save_rejects:
  "float_less v (Finite MIN_POLL_INTERVAL) \<Longrightarrow>
     \<exists>s'. save new_ip (Some v) s = Inr s' \<and> poll_interval s' = poll_interval s"
  by (simp add: save_def log_event_def emit_def)

lemma save_unsleepable:
  "\<not> float_less (Finite 10000000000000000) (Finite MIN_POLL_INTERVAL) \<and>
   \<not> sleep_accepts (Finite 10000000000000000) \<and>
   \<not> float_less PlusInf (Finite MIN_POLL_INTERVAL) \<and> \<not> sleep_accepts PlusInf \<and>
   \<not> float_less NaN (Finite MIN_POLL_INTERVAL) \<and> \<not> sleep_accepts NaN"
  by (simp add: MIN_POLL_INTERVAL_def sleep_accepts_def SLEEP_MAX_def)

subsection \<open>The concrete inputs\<close>

lemma good_cycle_facts:
  "ping good_cycle = PingExit 0" "client started \<noteq> None"
  "ensure_connected good_cycle = Inr True"
  "read good_cycle = Registers (32768 # 10000 # 5000 # [])"
  "length (tank_levels started) = 6"
  "db_write good_cycle = Committed" "gui_thread good_cycle = None"
  "after good_cycle = Scheduled" "running started"
  by (simp_all add: good_cycle_def started_def ensure_connected_def initial_tank_levels_def
      CAPACITIES_def)

lemma refused_cycle_facts:
  "ping refused_cycle = PingExit 0" "fetch_fails refused_cycle"
  "gui_thread refused_cycle = None" "after refused_cycle = Scheduled"
  by (simp_all add: refused_cycle_def good_cycle_def fetch_fails_def ensure_connected_def)

lemma transform_example_2: "transform 5000 (1747868 / 100) = 133354 / 100"
  using py_round_2_eqI [of "raw_level 5000 (1747868 / 100)" 133354]
  by (simp add: transform_def raw_level_def)

lemma error_cycles_facts:
  "list_all (\<lambda>env. gui_thread env = None) error_cycles" "length error_cycles = 6"
  by (simp_all add: error_cycles_def good_cycle_def refused_cycle_def)

lemma started_facts:
  "sleep_accepts (poll_interval started)" "poll_interval started = Finite 60000000"
  "gui_scheduled started = []" "db started = []" "last_update started = None"
  "clock started = 0" "stale_threshold started = 10000000"
  by (simp_all add: started_def sleep_accepts_def SLEEP_MAX_def)

lemmas eval_defs =
  poll_loop.simps modbus_polling_def poll_cycle_def cycle_body_def throttle_def ping_device_def
  fetch_tank_levels_def fetch_body_def schedule_gui_def gui_interleave_def finish_cycle_def
  sleep_def SLEEP_MAX_def advance_def log_event_def emit_def MIN_POLL_INTERVAL_def Let_def
  ensure_connected_def
  log_to_database_def cleanup_def confirm_exit_def teardown_def compute_levels_three
  good_cycle_def refused_cycle_def started_def right_code_def wrong_code_def
  initial_tank_levels_def CAPACITIES_def with_interval_def

lemma refused_cycle_example:
  "fetch_fails refused_cycle \<and> gui_scheduled started = [] \<and>
   gui_scheduled (snd (poll_cycle refused_cycle 0 started)) = [120100]"
  by (simp add: eval_defs fetch_fails_def)

lemma one_cycle_example:
  "db (snd (poll_cycle good_cycle 0 started)) =
     [(0, 1271398400 / 4369, 40000000 / 13107, 17478680 / 13107)]"
  by (simp add: eval_defs raw_level_def)

lemma two_cycles_example:
  "fst (modbus_polling [good_cycle, refused_cycle] started) = Polling \<and>
   fst (snd (modbus_polling [good_cycle, refused_cycle] started)) = 2 \<and>
   last_update (snd (snd (modbus_polling [good_cycle, refused_cycle] started))) = Some 150100 \<and>
   gui_scheduled (snd (snd (modbus_polling [good_cycle, refused_cycle] started))) = [155100, 60175200]"
  by (simp add: eval_defs)

lemma exit_example:
  "fst (modbus_polling [good_cycle\<lparr>gui_thread := Some right_code\<rparr>, good_cycle] started) = Exited \<and>
   fst (snd (modbus_polling [good_cycle\<lparr>gui_thread := Some right_code\<rparr>, good_cycle] started)) = 1"
  by (simp add: eval_defs)

lemma two_cycles_stale_example:
  "stale_threshold (snd (snd (modbus_polling [good_cycle, refused_cycle] started))) = 10000000 \<and>
   last_update (snd (snd (modbus_polling [good_cycle, refused_cycle] started))) = Some 150100 \<and>
   gui_scheduled (snd (snd (modbus_polling [good_cycle, refused_cycle] started))) = [155100, 60175200]"
  by (simp add: eval_defs)

lemma transform_example_3: "transform 32768 582000 = 29100444 / 100"
  using py_round_2_eqI [of "raw_level 32768 582000" 29100444]
  by (simp add: transform_def raw_level_def)

lemma raw_level_examples:
  "raw_level 32768 582000 = 1271398400 / 4369" "raw_level 10000 20000 = 40000000 / 13107"
  "raw_level 5000 (1747868 / 100) = 17478680 / 13107"
  by (simp_all add: raw_level_def)

text \<open>
  With a poll interval that \<^verbatim>\<open>time.sleep\<close> rejects, the sleep at the end of a cycle
  raises, the handler's own sleep raises again outside any \<^verbatim>\<open>try\<close>, and the thread
  ends with \<^verbatim>\<open>running\<close> still set.
\<close>

lemma save_example:
  "save ''192.168.1.235'' (Some (Finite 10000000000000000)) started =
     Inr (with_interval (Finite 10000000000000000)) \<and>
   save ''192.168.1.235'' (Some PlusInf) started = Inr (with_interval PlusInf) \<and>
   save ''192.168.1.235'' (Some NaN) started = Inr (with_interval NaN)"
  by (simp add: save_def started_def with_interval_def MIN_POLL_INTERVAL_def Let_def)

lemma unsleepable_interval_example:
  "fst (modbus_polling [good_cycle] (with_interval (Finite 10000000000000000))) =
     Died OverflowError \<and>
   fst (snd (modbus_polling [good_cycle] (with_interval (Finite 10000000000000000)))) = 1 \<and>
   running (snd (snd (modbus_polling [good_cycle] (with_interval (Finite 10000000000000000))))) \<and>
   fst (modbus_polling [good_cycle] (with_interval PlusInf)) = Died OverflowError \<and>
   running (snd (snd (modbus_polling [good_cycle] (with_interval PlusInf)))) \<and>
   fst (modbus_polling [good_cycle] (with_interval NaN)) = Died ValueError \<and>
   running (snd (snd (modbus_polling [good_cycle] (with_interval NaN)))) \<and>
   fst (modbus_polling [good_cycle] (with_interval (Finite (- 1)))) = Died ValueError"
  by (simp add: eval_defs)

text \<open>
  Six cycles, each with a different error, at the default interval: all six are run.
  A cleanup with the right exit code during a cycle ends the loop at the next check.
\<close>

lemma error_cycles_example:
  "fst (modbus_polling error_cycles started) = Polling \<and>
   fst (snd (modbus_polling error_cycles started)) = 6 \<and>
   logged started (snd (poll_cycle refused_cycle 0 started)) \<and>
   fst (modbus_polling [good_cycle\<lparr>gui_thread := Some right_code\<rparr>, good_cycle] started) = Exited \<and>
   \<not> running (snd (snd (modbus_polling [good_cycle\<lparr>gui_thread := Some right_code\<rparr>, good_cycle] started)))"
proof -
  from loop_survives_errors [OF started_facts(1), of error_cycles refused_cycle 0]
    good_cycle_facts(9) error_cycles_facts refused_cycle_facts(2)
  have a: "fst (modbus_polling error_cycles started) = Polling \<and>
   fst (snd (modbus_polling error_cycles started)) = 6 \<and>
   logged started (snd (poll_cycle refused_cycle 0 started))"
    by simp
  from loop_survives_errors [OF started_facts(1),
      of "[good_cycle\<lparr>gui_thread := Some right_code\<rparr>, good_cycle]" refused_cycle 0]
    exit_example
  have b: "\<not> running (snd (snd (modbus_polling [good_cycle\<lparr>gui_thread := Some right_code\<rparr>, good_cycle] started)))"
    by simp
  from a b exit_example show ?thesis by simp
qed

subsection \<open>The transform step\<close>

text \<open>
  Claim C2. For every raw register value \<open>r\<close> (a 16-bit word, so within 0..65535) and
  every capacity \<open>c > 0\<close>, the level the transform step stores differs from
  \<open>r / 65535 * c\<close> by at most half a hundredth and is a whole number of hundredths;
  the transform of 0 is 0, and the transform of 65535 is \<open>c\<close> up to the same rounding.
\<close>

theorem C2_transform:
  "0 < c \<Longrightarrow>
     \<bar>transform r c - of_nat (unat r) / 65535 * c\<bar> \<le> 1 / 200 \<and>
     (\<exists>k. transform r c = of_int k / 100) \<and>
     transform 0 c = 0 \<and>
     \<bar>transform 65535 c - c\<bar> \<le> 1 / 200"
proof (intro conjI)
  show "\<bar>transform r c - of_nat (unat r) / 65535 * c\<bar> \<le> 1 / 200"
    using py_round_2_error [of "raw_level r c"] by (simp add: transform_def raw_level_def)
  show "\<exists>k. transform r c = of_int k / 100"
    by (simp add: transform_def py_round_def)
  show "transform 0 c = 0"
    by (simp add: transform_def raw_level_0 py_round_0)
  show "\<bar>transform 65535 c - c\<bar> \<le> 1 / 200"
    using py_round_2_error [of c] by (simp add: transform_def raw_level_max)
qed

theorem C2_transform_witness:
  "(0::rat) < 20000 \<and>
     \<bar>transform 10000 20000 - of_nat (unat (10000 :: 16 word)) / 65535 * 20000\<bar> \<le> 1 / 200 \<and>
     transform 10000 20000 = 305180 / 100 \<and>
     transform 0 20000 = 0 \<and>
     \<bar>transform 65535 20000 - 20000\<bar> \<le> 1 / 200"
proof -
  have h: "(0::rat) < 20000" by simp
  from C2_transform [OF h, of 10000] transform_example h show ?thesis by simp
qed

subsection \<open>Failed cycles\<close>

text \<open>
  Claim C1, as amended. A poll cycle whose fetch fails at the connect step, the read
  step or the transform step inserts no row into \<^verbatim>\<open>tank_readings\<close> and leaves the
  six tank levels and the last-update timestamp as they were. It does hand a GUI
  update to Tk all the same: when the device answered the ping, \<^verbatim>\<open>running\<close> is set
  and \<^verbatim>\<open>root.after\<close> accepts the callback, exactly one \<^verbatim>\<open>update_gui\<close> is scheduled,
  which shows the unchanged levels again. (The cycle must get as far as the ping:
  \<^verbatim>\<open>last_poll_time\<close> is not in the future, as the loop keeps it, so that the first
  sleep returns.)
\<close>

theorem C1_failed_cycle:
  "fetch_fails env \<Longrightarrow>
     tank_levels (snd (poll_cycle env lp s)) = tank_levels s \<and>
     last_update (snd (poll_cycle env lp s)) = last_update s \<and>
     db (snd (poll_cycle env lp s)) = db s \<and>
     (lp \<le> clock s \<and> ping env = PingExit 0 \<and> running s \<and> gui_thread env = None \<and>
      after env = Scheduled \<longrightarrow>
        (\<exists>t. clock s \<le> t \<and> gui_scheduled (snd (poll_cycle env lp s)) = gui_scheduled s @ [t]))"
  by (rule failed_cycle)

theorem C1_failed_cycle_witness:
  "fetch_fails refused_cycle \<and>
     tank_levels (snd (poll_cycle refused_cycle 0 started)) = tank_levels started \<and>
     last_update (snd (poll_cycle refused_cycle 0 started)) = None \<and>
     db (snd (poll_cycle refused_cycle 0 started)) = [] \<and>
     0 \<le> clock started \<and> ping refused_cycle = PingExit 0 \<and> running started \<and> gui_thread refused_cycle = None \<and>
     after refused_cycle = Scheduled \<and>
     (\<exists>t. 0 \<le> t \<and> gui_scheduled (snd (poll_cycle refused_cycle 0 started)) = [t])"
proof -
  have s: "last_update started = None" "db started = []" "gui_scheduled started = []"
    "clock started = 0"
    by (simp_all add: started_def)
  from C1_failed_cycle [OF refused_cycle_facts(2), of 0 started] refused_cycle_facts
    good_cycle_facts(9) s
  show ?thesis by simp
qed

text \<open>
  Claim C1 as first stated (a failed cycle hands no GUI update to the consumer) fails
  for a refused connect: the cycle schedules \<^verbatim>\<open>update_gui\<close> at time 120100.
\<close>

theorem C1_gui_update_counterexample:
  "fetch_fails refused_cycle \<and> gui_scheduled started = [] \<and>
   gui_scheduled (snd (poll_cycle refused_cycle 0 started)) = [120100]"
  by (rule refused_cycle_example)

subsection \<open>Mirrored tanks\<close>

text \<open>
  Claim C3. In every successful cycle (\<^verbatim>\<open>last_poll_time\<close> is not in the future, as
  the loop keeps it, the ping succeeds, the socket is or becomes open, at least three
  registers are read) the level of Tank 3 equals the level of
  Tank 2, which is the transform of the third register, and the levels of Tank 4 and
  Tank 5 equal the level of Tank 1, which is the transform of the second register; all
  are written by the same cycle, and no tank changes its id.
\<close>

theorem C3_mirrored_tanks:
  assumes "lp \<le> clock s"
    and "ping env = PingExit 0"
    and "client s \<noteq> None"
    and "ensure_connected env = Inr True"
    and "read env = Registers (r0 # r1 # r2 # rest)"
    and "length (tank_levels s) = 6"
  shows "level (tank_levels (snd (poll_cycle env lp s)) ! 1) = transform r1 20000 \<and>
         level (tank_levels (snd (poll_cycle env lp s)) ! 2) = transform r2 (1747868 / 100) \<and>
         level (tank_levels (snd (poll_cycle env lp s)) ! 3) =
           level (tank_levels (snd (poll_cycle env lp s)) ! 2) \<and>
         level (tank_levels (snd (poll_cycle env lp s)) ! 4) =
           level (tank_levels (snd (poll_cycle env lp s)) ! 1) \<and>
         level (tank_levels (snd (poll_cycle env lp s)) ! 5) =
           level (tank_levels (snd (poll_cycle env lp s)) ! 1) \<and>
         map tank_id (tank_levels (snd (poll_cycle env lp s))) = map tank_id (tank_levels s)"
proof -
  define ts where "ts = tank_levels (snd (poll_cycle env lp s))"
  from successful_cycle [OF assms]
  have m: "map level ts =
       [transform r0 582000, transform r1 20000, transform r2 (1747868 / 100),
        transform r2 (1747868 / 100), transform r1 20000, transform r1 20000]"
    and i: "map tank_id ts = map tank_id (tank_levels s)"
    unfolding ts_def by blast+
  from m have "length (map level ts) = 6" by simp
  then have len: "length ts = 6" by simp
  have nth: "level (ts ! k) = map level ts ! k" if "k < 6" for k
    using that len by simp
  have "level (ts ! 1) = transform r1 20000" "level (ts ! 2) = transform r2 (1747868 / 100)"
    "level (ts ! 3) = transform r2 (1747868 / 100)" "level (ts ! 4) = transform r1 20000"
    "level (ts ! 5) = transform r1 20000"
    by (simp_all add: nth m)
  with i show ?thesis unfolding ts_def by simp
qed

theorem C3_mirrored_tanks_witness:
  "0 \<le> clock started \<and> ping good_cycle = PingExit 0 \<and> client started \<noteq> None \<and>
   ensure_connected good_cycle = Inr True \<and>
   read good_cycle = Registers [32768, 10000, 5000] \<and> length (tank_levels started) = 6 \<and>
   level (tank_levels (snd (poll_cycle good_cycle 0 started)) ! 2) = 133354 / 100 \<and>
   level (tank_levels (snd (poll_cycle good_cycle 0 started)) ! 3) = 133354 / 100 \<and>
   level (tank_levels (snd (poll_cycle good_cycle 0 started)) ! 1) = 305180 / 100 \<and>
   level (tank_levels (snd (poll_cycle good_cycle 0 started)) ! 4) = 305180 / 100 \<and>
   level (tank_levels (snd (poll_cycle good_cycle 0 started)) ! 5) = 305180 / 100"
proof -
  have lp: "0 \<le> clock started" by (simp add: started_facts)
  from C3_mirrored_tanks [OF lp good_cycle_facts(1-5)] lp good_cycle_facts(1-5)
    transform_example transform_example_2
  show ?thesis by simp
qed

text \<open>
  Claim C10. In a successful cycle (as for C3) whose database write commits, the row appended to
  \<^verbatim>\<open>tank_readings\<close> holds the three levels as computed, before rounding, while
  the levels of the first three tanks are those values rounded to two decimals: a
  stored value and the level displayed for it differ by at most half a hundredth and
  need not be equal (for the registers 32768, 10000, 5000 all three differ).
\<close>

theorem C10_log_holds_unrounded_levels:
  assumes "lp \<le> clock s"
    and "ping env = PingExit 0"
    and "client s \<noteq> None"
    and "ensure_connected env = Inr True"
    and "read env = Registers (r0 # r1 # r2 # rest)"
    and "length (tank_levels s) = 6"
    and "db_write env = Committed"
  shows "\<exists>stamp l1 l2 l3.
           l1 = raw_level r0 582000 \<and> l2 = raw_level r1 20000 \<and>
           l3 = raw_level r2 (1747868 / 100) \<and>
           db (snd (poll_cycle env lp s)) = db s @ [(stamp, l1, l2, l3)] \<and>
           map level (take 3 (tank_levels (snd (poll_cycle env lp s)))) =
             [py_round l1 2, py_round l2 2, py_round l3 2] \<and>
           \<bar>py_round l1 2 - l1\<bar> \<le> 1 / 200 \<and> \<bar>py_round l2 2 - l2\<bar> \<le> 1 / 200 \<and>
           \<bar>py_round l3 2 - l3\<bar> \<le> 1 / 200"
proof -
  from successful_cycle [OF assms(1-6)]
  obtain t where m: "map level (tank_levels (snd (poll_cycle env lp s))) =
       [transform r0 582000, transform r1 20000, transform r2 (1747868 / 100),
        transform r2 (1747868 / 100), transform r1 20000, transform r1 20000]"
    and d0: "db (snd (poll_cycle env lp s)) =
       (if db_write env = Committed
        then db s @ [((t + int (t_modbus env) + int (t_db env)) div 1000000,
                      raw_level r0 582000, raw_level r1 20000, raw_level r2 (1747868 / 100))]
        else db s)"
    by (elim exE conjE)
  from d0 assms(7) have d: "db (snd (poll_cycle env lp s)) =
       db s @ [((t + int (t_modbus env) + int (t_db env)) div 1000000,
                raw_level r0 582000, raw_level r1 20000, raw_level r2 (1747868 / 100))]"
    by (simp only: refl if_True)
  have "map level (take 3 (tank_levels (snd (poll_cycle env lp s)))) =
          take 3 (map level (tank_levels (snd (poll_cycle env lp s))))"
    by (simp only: take_map)
  with m have tk: "map level (take 3 (tank_levels (snd (poll_cycle env lp s)))) =
      [py_round (raw_level r0 582000) 2, py_round (raw_level r1 20000) 2,
       py_round (raw_level r2 (1747868 / 100)) 2]"
    by (simp add: transform_def)
  show ?thesis
    apply (rule exI [of _ "(t + int (t_modbus env) + int (t_db env)) div 1000000"])
    apply (rule exI [of _ "raw_level r0 582000"])
    apply (rule exI [of _ "raw_level r1 20000"])
    apply (rule exI [of _ "raw_level r2 (1747868 / 100)"])
    apply (intro conjI refl d tk py_round_2_error)
    done
qed

theorem C10_log_holds_unrounded_levels_witness:
  "0 \<le> clock started \<and> ping good_cycle = PingExit 0 \<and> client started \<noteq> None \<and>
   ensure_connected good_cycle = Inr True \<and>
   read good_cycle = Registers [32768, 10000, 5000] \<and> length (tank_levels started) = 6 \<and>
   db_write good_cycle = Committed \<and>
   (\<exists>stamp. db (snd (poll_cycle good_cycle 0 started)) =
      [(stamp, 1271398400 / 4369, 40000000 / 13107, 17478680 / 13107)]) \<and>
   map level (take 3 (tank_levels (snd (poll_cycle good_cycle 0 started)))) =
     [29100444 / 100, 305180 / 100, 133354 / 100] \<and>
   (1271398400 / 4369 :: rat) \<noteq> 29100444 / 100 \<and>
   (40000000 / 13107 :: rat) \<noteq> 305180 / 100 \<and>
   (17478680 / 13107 :: rat) \<noteq> 133354 / 100"
proof -
  have p: "py_round (raw_level 32768 582000) 2 = 29100444 / 100"
    "py_round (raw_level 10000 20000) 2 = 305180 / 100"
    "py_round (raw_level 5000 (1747868 / 100)) 2 = 133354 / 100"
    using transform_example transform_example_2 transform_example_3
    by (simp_all only: transform_def)
  have lp: "0 \<le> clock started" by (simp add: started_facts)
  from C10_log_holds_unrounded_levels [OF lp good_cycle_facts(1-6)]
  obtain stamp where
    d: "db (snd (poll_cycle good_cycle 0 started)) =
          db started @ [(stamp, raw_level 32768 582000, raw_level 10000 20000,
                         raw_level 5000 (1747868 / 100))]"
    and m: "map level (take 3 (tank_levels (snd (poll_cycle good_cycle 0 started)))) =
          [py_round (raw_level 32768 582000) 2, py_round (raw_level 10000 20000) 2,
           py_round (raw_level 5000 (1747868 / 100)) 2]"
    by (elim exE conjE) simp
  from d have "db (snd (poll_cycle good_cycle 0 started)) =
      [(stamp, 1271398400 / 4369, 40000000 / 13107, 17478680 / 13107)]"
    by (simp only: raw_level_examples started_facts(4) append_Nil)
  then have 1: "\<exists>stamp. db (snd (poll_cycle good_cycle 0 started)) =
      [(stamp, 1271398400 / 4369, 40000000 / 13107, 17478680 / 13107)]" ..
  from m have 2: "map level (take 3 (tank_levels (snd (poll_cycle good_cycle 0 started)))) =
     [29100444 / 100, 305180 / 100, 133354 / 100]"
    by (simp only: p)
  have 3: "(1271398400 / 4369 :: rat) \<noteq> 29100444 / 100"
    "(40000000 / 13107 :: rat) \<noteq> 305180 / 100"
    "(17478680 / 13107 :: rat) \<noteq> 133354 / 100"
    by simp_all
  from 1 2 3 lp good_cycle_facts(1-6) show ?thesis
    by (intro conjI) simp_all
qed

subsection \<open>Staleness\<close>

text \<open>
  Claim C5, as amended. The staleness test of \<^verbatim>\<open>update_gui\<close> is true if and only
  if a successful update has occurred and the time since the last one exceeds the
  threshold. While no update has occurred the test is false, and \<^verbatim>\<open>update_gui\<close>
  paints every tank in its own colour, as it does for fresh data, not in gray.
\<close>

theorem C5_staleness:
  "(is_stale now s \<longleftrightarrow> (\<exists>t. last_update s = Some t \<and> stale_threshold s < now - t)) \<and>
   \<not> is_stale now (s\<lparr>last_update := None\<rparr>) \<and>
   update_gui_fills now (s\<lparr>last_update := None\<rparr>) =
     those (map (\<lambda>t. map_option (Pair (tank_id t)) (map_of fill_colors (tank_id t)))
             (tank_levels s))"
  by (auto simp: is_stale_def update_gui_fills_def split: option.splits)

text \<open>
  Claim C5 as first stated (a state without any successful update is reported as
  stale, never as fresh) fails on the state right after startup: an hour later the
  test is still false and the bars keep their colours.
\<close>

theorem C5_never_updated_counterexample:
  "last_update started = None \<and> \<not> is_stale 3600000000 started \<and>
   update_gui_fills 3600000000 started =
     Some [(''Big Tank'', ''#32CD32''), (''Tank 1 - Bio'', ''#FFA500''),
           (''Tank 2 - Fleet'', ''#FFFF00''), (''Tank 3 - Fleet'', ''#FFFF00''),
           (''Tank 4 - Bio'', ''#FFA500''), (''Tank 5 - Bio'', ''#FFA500'')]"
  by (simp add: started_def is_stale_def update_gui_fills_def initial_tank_levels_def
      CAPACITIES_def fill_colors_def)

text \<open>
  Claim C7, as amended. The staleness threshold (10 s) is shorter than the default
  poll interval (60 s), and whenever the threshold is shorter than a poll interval
  that \<^verbatim>\<open>time.sleep\<close> accepts, a single missed cycle is not tolerated: after one
  successful cycle followed by one cycle whose fetch fails, the \<^verbatim>\<open>update_gui\<close>
  scheduled by the failed cycle finds the data stale whenever it runs, because the
  loop slept a full poll interval after the last successful update.
\<close>

theorem C7_missed_cycle_shown_stale:
  assumes "running s"
    and "poll_interval s = Finite d"
    and "stale_threshold s < d"
    and "0 \<le> d"
    and "d \<le> SLEEP_MAX"
    and "ping env1 = PingExit 0"
    and "client s \<noteq> None"
    and "ensure_connected env1 = Inr True"
    and "read env1 = Registers (r0 # r1 # r2 # rest)"
    and "length (tank_levels s) = 6"
    and "gui_thread env1 = None"
    and "ping env2 = PingExit 0"
    and "fetch_fails env2"
    and "gui_thread env2 = None"
    and "after env2 = Scheduled"
  shows "\<exists>t2 s2. modbus_polling [env1, env2] s = (Polling, 2, s2) \<and>
           gui_scheduled s2 = gui_scheduled (snd (poll_cycle env1 (clock s) s)) @ [t2] \<and>
           (\<forall>now. t2 \<le> now \<longrightarrow> is_stale now s2)"
  using assms by (rule missed_cycle_stale)

theorem C7_missed_cycle_shown_stale_witness:
  "running started \<and> poll_interval started = Finite 60000000 \<and>
   stale_threshold started < 60000000 \<and> (0::int) \<le> 60000000 \<and> 60000000 \<le> SLEEP_MAX \<and>
   stale_threshold started = 10000000 \<and> DEFAULT_POLL_INTERVAL = 60000000 \<and>
   ping good_cycle = PingExit 0 \<and> ensure_connected good_cycle = Inr True \<and>
   ping refused_cycle = PingExit 0 \<and> fetch_fails refused_cycle \<and>
   after refused_cycle = Scheduled \<and>
   (\<exists>t2 s2. modbus_polling [good_cycle, refused_cycle] started = (Polling, 2, s2) \<and>
           gui_scheduled s2 = gui_scheduled (snd (poll_cycle good_cycle (clock started) started)) @ [t2] \<and>
           is_stale t2 s2)"
proof -
  have h: "stale_threshold started < 60000000" "(0::int) \<le> 60000000" "60000000 \<le> SLEEP_MAX"
    "DEFAULT_POLL_INTERVAL = 60000000"
    by (simp_all add: started_facts SLEEP_MAX_def DEFAULT_POLL_INTERVAL_def)
  from C7_missed_cycle_shown_stale [OF good_cycle_facts(9) started_facts(2) h(1-3)
      good_cycle_facts(1,2,3,4,5,7) refused_cycle_facts(1,2,3,4)]
  have "\<exists>t2 s2. modbus_polling [good_cycle, refused_cycle] started = (Polling, 2, s2) \<and>
           gui_scheduled s2 = gui_scheduled (snd (poll_cycle good_cycle (clock started) started)) @ [t2] \<and>
           is_stale t2 s2"
    by fastforce
  with h good_cycle_facts refused_cycle_facts started_facts show ?thesis by simp
qed

text \<open>
  Claim C7 as first stated (after one successful and one failed cycle the stale
  indicator is not yet shown) fails on the default configuration: the update
  scheduled by the failed cycle, at time 60175200, finds the data stale.
\<close>

theorem C7_single_miss_counterexample:
  "poll_interval started = Finite 60000000 \<and> stale_threshold started = 10000000 \<and>
   fetch_fails refused_cycle \<and>
   gui_scheduled (snd (snd (modbus_polling [good_cycle, refused_cycle] started))) =
     [155100, 60175200] \<and>
   is_stale 60175200 (snd (snd (modbus_polling [good_cycle, refused_cycle] started)))"
  using two_cycles_stale_example started_facts(2,7) refused_cycle_facts(2)
  by (simp add: is_stale_def)

subsection \<open>Shutdown\<close>

text \<open>
  Claim C8. When \<^verbatim>\<open>cleanup\<close> runs while the root window is alive (no Tk call raises
  TclError) and the operator cancels the prompt or enters anything but the exit code,
  the state is unchanged but for the trace of the prompt: \<^verbatim>\<open>running\<close> and
  \<^verbatim>\<open>cleaned_up\<close> keep their values, the window stays, and the Modbus client is not
  closed.
\<close>

theorem C8_wrong_token_aborts:
  "root_alive s \<Longrightarrow> ask env = Answer a \<Longrightarrow> a \<noteq> Some ''12345'' \<Longrightarrow> \<not> showerror_raises env \<Longrightarrow>
   cleanup env s =
     s\<lparr>trace := trace s @
        (if cleaned_up s then []
         else if a = None then [AskString]
         else [AskString, Log WARNING ''Incorrect exit code entered'', ShowError])\<rparr> \<and>
   running (cleanup env s) = running s \<and>
   cleaned_up (cleanup env s) = cleaned_up s \<and>
   root_alive (cleanup env s) \<and>
   ClientClose \<notin> set (drop (length (trace s)) (trace (cleanup env s)))"
  by (simp add: cleanup_def confirm_exit_wrong)

theorem C8_wrong_token_aborts_witness:
  "root_alive started \<and> ask wrong_code = Answer (Some ''0000'') \<and> Some ''0000'' \<noteq> Some ''12345'' \<and>
   \<not> showerror_raises wrong_code \<and>
   cleanup wrong_code started =
     started\<lparr>trace := [AskString, Log WARNING ''Incorrect exit code entered'', ShowError]\<rparr> \<and>
   running (cleanup wrong_code started) \<and>
   \<not> cleaned_up (cleanup wrong_code started)"
proof -
  have h: "root_alive started" "ask wrong_code = Answer (Some ''0000'')"
    "Some ''0000'' \<noteq> Some ''12345''" "\<not> showerror_raises wrong_code"
    by (simp_all add: started_def wrong_code_def)
  from C8_wrong_token_aborts [OF h] h show ?thesis
    by (simp add: started_def)
qed

text \<open>
  Claim C9. Once \<^verbatim>\<open>cleaned_up\<close> is set, \<^verbatim>\<open>cleanup\<close> returns the state as it is,
  trace included: no prompt, no second \<^verbatim>\<open>close\<close>, no write. A call of
  \<^verbatim>\<open>cleanup\<close> that passes the confirmation sets \<^verbatim>\<open>cleaned_up\<close>, so every later
  call, from either trigger, is such a no-op.
\<close>

theorem C9_cleanup_idempotent:
  "(cleaned_up s \<longrightarrow> cleanup env s = s) \<and>
   (cleaned_up (cleanup env1 s) \<longrightarrow> cleanup env2 (cleanup env1 s) = cleanup env1 s) \<and>
   (\<not> cleaned_up s \<and> fst (confirm_exit env s) \<longrightarrow> cleaned_up (cleanup env s))"
  by (auto simp: cleanup_def cleaned_up_teardown split: prod.splits bool.splits)

theorem C9_cleanup_idempotent_witness:
  "cleaned_up (cleanup right_code started) \<and>
   trace (cleanup right_code started) = [AskString, AfterCancel, ClientClose, RootDestroy] \<and>
   cleanup wrong_code (cleanup right_code started) = cleanup right_code started \<and>
   cleanup right_code (cleanup right_code started) = cleanup right_code started"
proof -
  have c: "cleaned_up (cleanup right_code started)"
    and t: "trace (cleanup right_code started) = [AskString, AfterCancel, ClientClose, RootDestroy]"
    by (simp_all add: cleanup_def confirm_exit_def teardown_def started_def right_code_def emit_def Let_def)
  from C9_cleanup_idempotent [of "started" right_code right_code wrong_code] c
  have "cleanup wrong_code (cleanup right_code started) = cleanup right_code started"
    by simp
  moreover from C9_cleanup_idempotent [of "started" right_code right_code right_code] c
  have "cleanup right_code (cleanup right_code started) = cleanup right_code started"
    by simp
  ultimately show ?thesis using c t by simp
qed

subsection \<open>The loop\<close>

text \<open>
  Claim C4 (no error raised inside a cycle ends the acquisition loop; the loop exits
  only when \<^verbatim>\<open>running\<close> has been cleared) does not hold of the code. The settings
  window stores the intervals \<^verbatim>\<open>1e10\<close>, \<^verbatim>\<open>inf\<close> and \<^verbatim>\<open>nan\<close>, since it only
  checks the minimum. With such an interval the sleep that ends the next cycle
  raises, the handler catches that and calls \<^verbatim>\<open>time.sleep\<close> again outside any
  \<^verbatim>\<open>try\<close>, and the thread ends with \<^verbatim>\<open>running\<close> still set, here after a cycle in
  which nothing else failed. For the intervals \<^verbatim>\<open>time.sleep\<close> accepts the claim
  holds (lemma \<open>loop_survives_errors\<close>).
\<close>

theorem C4_rejected_interval_ends_thread:
  "save ''192.168.1.235'' (Some (Finite 10000000000000000)) started =
     Inr (with_interval (Finite 10000000000000000)) \<and>
   running (with_interval (Finite 10000000000000000)) \<and>
   fst (modbus_polling [good_cycle] (with_interval (Finite 10000000000000000))) =
     Died OverflowError \<and>
   running (snd (snd (modbus_polling [good_cycle] (with_interval (Finite 10000000000000000))))) \<and>
   save ''192.168.1.235'' (Some PlusInf) started = Inr (with_interval PlusInf) \<and>
   fst (modbus_polling [good_cycle] (with_interval PlusInf)) = Died OverflowError \<and>
   running (snd (snd (modbus_polling [good_cycle] (with_interval PlusInf)))) \<and>
   save ''192.168.1.235'' (Some NaN) started = Inr (with_interval NaN) \<and>
   fst (modbus_polling [good_cycle] (with_interval NaN)) = Died ValueError \<and>
   running (snd (snd (modbus_polling [good_cycle] (with_interval NaN))))"
proof -
  have "running (with_interval (Finite 10000000000000000))"
    by (simp add: with_interval_def started_def)
  with save_example unsleepable_interval_example show ?thesis
    by simp
qed

subsection \<open>The persistence log\<close>

text \<open>
  Claim C6, as amended. Once the application has started, the table only grows: a
  fetch, a poll cycle and the whole polling loop leave the rows present before in
  place and in order, and \<^verbatim>\<open>cleanup\<close> does not touch them. Startup is the
  exception: it deletes an existing database file, so the rows of an earlier run
  survive only when the deletion fails.
\<close>

theorem C6_log_append_only:
  "prefix (db s) (db (fetch_tank_levels env s)) \<and>
   prefix (db s) (db (snd (poll_cycle env lp s))) \<and>
   prefix (db s) (db (snd (snd (modbus_polling envs s)))) \<and>
   db (cleanup cenv s) = db s \<and>
   (init ienv = Inr s0 \<longrightarrow> db s0 = startup_database (remove_ok ienv) (existing_db ienv)) \<and>
   startup_database True existing = [] \<and>
   startup_database False (Some rows) = rows"
proof -
  have 1: "prefix (db s) (db (fetch_tank_levels env s))"
    using fetch_tank_levels_keeps [of s env] by (simp add: keeps_def)
  have 2: "prefix (db s) (db (snd (poll_cycle env lp s)))"
    using poll_cycle_general [of env lp s] by simp
  have 3: "prefix (db s) (db (snd (snd (modbus_polling envs s))))"
    unfolding modbus_polling_def by (rule poll_loop_db)
  have 4: "db (cleanup cenv s) = db s" by (rule cleanup_db)
  have 5: "init ienv = Inr s0 \<longrightarrow> db s0 = startup_database (remove_ok ienv) (existing_db ienv)"
    using init_establishes [of ienv s0] by simp
  have 6: "startup_database True existing = []" "startup_database False (Some rows) = rows"
    by (simp_all add: startup_database_def split: option.splits)
  from 1 2 3 4 5 6 show ?thesis by (intro conjI)
qed

theorem C6_log_append_only_witness:
  "init first_start = Inr started \<and> db started = [] \<and>
   db (snd (poll_cycle good_cycle 0 started)) =
     [(0, 1271398400 / 4369, 40000000 / 13107, 17478680 / 13107)] \<and>
   prefix (db (snd (poll_cycle good_cycle 0 started)))
     (db (snd (snd (modbus_polling error_cycles (snd (poll_cycle good_cycle 0 started)))))) \<and>
   db (cleanup right_code (snd (poll_cycle good_cycle 0 started))) =
     db (snd (poll_cycle good_cycle 0 started))"
  using C6_log_append_only [of "snd (poll_cycle good_cycle 0 started)" good_cycle 0
      error_cycles right_code first_start started None "[]"]
    init_first_start started_facts(4) one_cycle_example
  by simp

text \<open>
  Claim C6 as first stated (no operation removes persisted records) fails at
  startup: a restart over a file that holds one row yields an empty table.
\<close>

theorem C6_startup_deletes_counterexample:
  "existing_db restart = Some [(1, 291000, 3000, 1300)] \<and> remove_ok restart \<and>
   init restart = Inr started \<and> db started = []"
  using init_restart by (simp add: restart_def first_start_def started_def)

end
